theory Spec2Isabelle
  imports
    Main
    "HOL-Library.Char_ord"
    "HOL-Library.List_Lexorder"
    "HOL-Library.Product_Lexorder"
    "HOL-Library.FSet"
    "HOL-Library.Multiset"
begin

unbundle bit_operations_syntax

section \<open>The image crawler \<^verbatim>\<open>agsa-site/tools/extract_site_images.py\<close>\<close>

text \<open>
  Python strings are modelled as \<^typ>\<open>string\<close> (lists of 8-bit characters): the model
  covers ASCII text, which is what the hash strings, cluster labels, file names and the
  URLs of the examples are. Python integers are \<^typ>\<open>int\<close>; lengths and counts are \<^typ>\<open>nat\<close>.
  String comparison (\<open><\<close> on \<^typ>\<open>string\<close>) is the lexicographic order on character codes,
  as Python's is; tuple comparison is the lexicographic order on pairs.
\<close>

subsection \<open>Constants\<close>

definition MIN_BYTES :: int where
  "MIN_BYTES = 40 * 1024"

definition MIN_LONGEST_SIDE :: int where
  "MIN_LONGEST_SIDE = 600"

definition PHASH_DISTANCE_THRESHOLD :: nat where
  "PHASH_DISTANCE_THRESHOLD = 6"

definition MAX_RETRIES :: nat where
  "MAX_RETRIES = 3"

subsection \<open>String helpers of the Python runtime\<close>

definition startswith :: "string \<Rightarrow> string \<Rightarrow> bool" where
  "startswith s p = (take (length p) s = p)"

definition endswith :: "string \<Rightarrow> string \<Rightarrow> bool" where
  "endswith s p = (length p \<le> length s \<and> drop (length s - length p) s = p)"

definition lower_char :: "char \<Rightarrow> char" where
  "lower_char c =
     (let n = of_char c :: nat in if 65 \<le> n \<and> n \<le> 90 then char_of (n + 32) else c)"

definition lower :: "string \<Rightarrow> string" where
  "lower s = map lower_char s"

text \<open>\<^verbatim>\<open>Py_ISSPACE\<close>: space, tab, line feed, vertical tab, form feed, carriage return.\<close>

definition is_space :: "char \<Rightarrow> bool" where
  "is_space c = (of_char c \<in> set [32, 9, 10, 11, 12, 13 :: nat])"

definition digit_char :: "nat \<Rightarrow> char" where
  "digit_char d = char_of (48 + d)"

fun dec_digits :: "nat \<Rightarrow> string" where
  "dec_digits n = (if n < 10 then [digit_char n] else dec_digits (n div 10) @ [digit_char (n mod 10)])"

declare dec_digits.simps [simp del]

text \<open>The format \<^verbatim>\<open>{n:03d}\<close> of a non-negative integer: decimal, zero-padded to width 3 at least.\<close>

definition format_03d :: "nat \<Rightarrow> string" where
  "format_03d n = replicate (3 - length (dec_digits n)) (CHR ''0'') @ dec_digits n"

subsection \<open>\<^verbatim>\<open>int(s, 16)\<close> and \<^verbatim>\<open>int.bit_count\<close>\<close>

definition hex_val :: "char \<Rightarrow> int option" where
  "hex_val c =
     (let n = of_char c :: int in
      if 48 \<le> n \<and> n \<le> 57 then Some (n - 48)
      else if 97 \<le> n \<and> n \<le> 102 then Some (n - 87)
      else if 65 \<le> n \<and> n \<le> 70 then Some (n - 55)
      else None)"

definition strip_sign :: "string \<Rightarrow> bool \<times> string" where
  "strip_sign s =
     (case s of
        [] \<Rightarrow> (False, [])
      | c # r \<Rightarrow>
          if c = CHR ''+'' then (False, r)
          else if c = CHR ''-'' then (True, r)
          else (False, s))"

text \<open>The optional prefix \<^verbatim>\<open>0x\<close> or \<^verbatim>\<open>0X\<close> of base 16; one underscore may follow it.\<close>

definition strip_0x :: "string \<Rightarrow> string" where
  "strip_0x s =
     (case s of
        c # x # r \<Rightarrow>
          if c = CHR ''0'' \<and> (x = CHR ''x'' \<or> x = CHR ''X'')
          then (case r of [] \<Rightarrow> [] | u # r' \<Rightarrow> if u = CHR ''_'' then r' else r)
          else s
      | _ \<Rightarrow> s)"

text \<open>
  The digit scan of CPython's \<^verbatim>\<open>long_from_binary_base\<close>: hex digits and single
  underscores between them; a doubled or trailing underscore is a syntax error (\<open>None\<close>).
  It returns the value read and the text left.
\<close>

fun scan_hex :: "string \<Rightarrow> bool \<Rightarrow> int \<Rightarrow> (int \<times> string) option" where
  "scan_hex [] prev_us acc = (if prev_us then None else Some (acc, []))"
| "scan_hex (c # cs) prev_us acc =
     (if c = CHR ''_'' then (if prev_us then None else scan_hex cs True acc)
      else case hex_val c of
             Some v \<Rightarrow> scan_hex cs False (16 * acc + v)
           | None \<Rightarrow> (if prev_us then None else Some (acc, c # cs)))"

text \<open>
  \<^verbatim>\<open>int(s, 16)\<close>: \<open>None\<close> is \<^verbatim>\<open>ValueError\<close>. Leading and trailing white space is
  skipped, then a sign, then the prefix; the digits may not start with an underscore and
  at least one character must be read.
\<close>

definition int_hex :: "string \<Rightarrow> int option" where
  "int_hex s =
     (let (neg, t) = strip_sign (dropWhile is_space s);
          u = strip_0x t
      in if u = [] \<or> hd u = CHR ''_'' then None
         else (case scan_hex u False 0 of
                 None \<Rightarrow> None
               | Some (v, rest) \<Rightarrow>
                   if length rest = length u then None
                   else if dropWhile is_space rest \<noteq> [] then None
                   else Some (if neg then - v else v)))"

function bit_count_pos :: "int \<Rightarrow> nat" where
  "bit_count_pos n = (if n \<le> 0 then 0 else nat (n mod 2) + bit_count_pos (n div 2))"
  by pat_completeness auto
termination
  by (relation "measure nat") auto

declare bit_count_pos.simps [simp del]

text \<open>\<^verbatim>\<open>int.bit_count()\<close>: the number of ones in the binary representation of the absolute value.\<close>

definition bit_count :: "int \<Rightarrow> nat" where
  "bit_count x = bit_count_pos \<bar>x\<bar>"

subsection \<open>Candidates\<close>

record Candidate =
  cand_id :: string
  filename :: string
  sourcePage :: string
  sourceImageUrl :: string
  alt :: string
  width :: int
  height :: int
  bytes :: int
  phash :: string
  phashClusterId :: string

subsection \<open>Perceptual hashes\<close>

text \<open>
  \<^verbatim>\<open>hamming_distance_hex\<close>. A hash tagged \<^verbatim>\<open>ahash-\<close> is compared by string equality
  only; otherwise both strings are read as base-16 integers and the ones of their exclusive
  or are counted; a string that is not a number gives 64.
\<close>

definition hamming_distance_hex :: "string \<Rightarrow> string \<Rightarrow> nat" where
  "hamming_distance_hex a b =
     (if startswith a ''ahash-'' \<or> startswith b ''ahash-'' then (if a = b then 0 else 64)
      else (case int_hex a of
              None \<Rightarrow> 64
            | Some x \<Rightarrow> (case int_hex b of None \<Rightarrow> 64 | Some y \<Rightarrow> bit_count (x XOR y))))"

text \<open>\<^verbatim>\<open>choose_better\<close>: Python compares the two score tuples lexicographically.\<close>

definition choose_better :: "Candidate \<Rightarrow> Candidate \<Rightarrow> Candidate" where
  "choose_better a b =
     (let a_score = (bytes a, width a * height a);
          b_score = (bytes b, width b * height b)
      in if a_score \<ge> b_score then a else b)"

text \<open>The score tuple that \<^verbatim>\<open>choose_better\<close> builds for each of its arguments.\<close>

definition score :: "Candidate \<Rightarrow> int \<times> int" where
  "score c = (bytes c, width c * height c)"

subsection \<open>Clustering\<close>

text \<open>
  A cluster is the dictionary \<^verbatim>\<open>{"id", "rep", "items", "best"}\<close> of the source. The
  candidates are objects that the loop mutates (their \<^verbatim>\<open>phashClusterId\<close>); the model
  passes each candidate by value and stores the updated copy wherever the source holds a
  reference to the object. The list that \<^verbatim>\<open>main\<close> passes holds one object per image URL,
  so no object occurs in it twice. A reference to a cluster of the list is its index.
\<close>

record Cluster =
  cluster_id :: string
  rep :: Candidate
  items :: "Candidate list"
  best :: Candidate

definition within_threshold :: "Candidate \<Rightarrow> Cluster \<Rightarrow> bool" where
  "within_threshold candidate cluster =
     (hamming_distance_hex (phash candidate) (phash (rep cluster)) \<le> PHASH_DISTANCE_THRESHOLD)"

text \<open>The inner loop: the first cluster, in list order, whose representative is close enough.\<close>

fun find_cluster :: "Candidate \<Rightarrow> Cluster list \<Rightarrow> nat option" where
  "find_cluster candidate [] = None"
| "find_cluster candidate (cluster # clusters) =
     (if within_threshold candidate cluster then Some 0
      else map_option Suc (find_cluster candidate clusters))"

definition cluster_label :: "nat \<Rightarrow> string" where
  "cluster_label n = ''cluster-'' @ format_03d n"

text \<open>One iteration of the outer loop: the clusters and the candidate as the iteration leaves them.\<close>

definition cluster_step :: "Cluster list \<Rightarrow> Candidate \<Rightarrow> Cluster list \<times> Candidate" where
  "cluster_step clusters candidate =
     (case find_cluster candidate clusters of
        None \<Rightarrow>
          (let cid = cluster_label (length clusters + 1);
               candidate' = candidate\<lparr>phashClusterId := cid\<rparr>
           in (clusters @ [\<lparr>cluster_id = cid, rep = candidate', items = [candidate'],
                            best = candidate'\<rparr>], candidate'))
      | Some i \<Rightarrow>
          (let matched = clusters ! i;
               candidate' = candidate\<lparr>phashClusterId := cluster_id matched\<rparr>
           in (clusters[i := matched\<lparr>items := items matched @ [candidate'],
                                      best := choose_better (best matched) candidate'\<rparr>],
               candidate')))"

fun cluster_loop :: "Cluster list \<Rightarrow> Candidate list \<Rightarrow> Cluster list \<times> Candidate list" where
  "cluster_loop clusters [] = (clusters, [])"
| "cluster_loop clusters (candidate # rest) =
     (let (clusters', candidate') = cluster_step clusters candidate;
          (clusters'', rest') = cluster_loop clusters' rest
      in (clusters'', candidate' # rest'))"

definition cluster_candidates :: "Candidate list \<Rightarrow> Candidate list" where
  "cluster_candidates candidates =
     map (\<lambda>cluster. (best cluster)\<lparr>phashClusterId := cluster_id cluster\<rparr>)
       (fst (cluster_loop [] candidates))"

text \<open>
  The clustering policy in the words of the specification, on hash strings alone: the
  representative hashes are kept in cluster-creation order and never change; a hash joins
  the first representative within the threshold, or else becomes the representative of a
  new cluster. The result is the cluster index given to each hash, in input order.
\<close>

fun first_within :: "string \<Rightarrow> string list \<Rightarrow> nat option" where
  "first_within h [] = None"
| "first_within h (r # rs) =
     (if hamming_distance_hex h r \<le> 6 then Some 0 else map_option Suc (first_within h rs))"


fun spec_representatives :: "string list \<Rightarrow> string list \<Rightarrow> string list" where
  "spec_representatives reps [] = reps"
| "spec_representatives reps (h # hs) =
     (case first_within h reps of
        Some i \<Rightarrow> spec_representatives reps hs
      | None \<Rightarrow> spec_representatives (reps @ [h]) hs)"

text \<open>
  What the loop maintains for every cluster: its comparison representative is its first
  member, every member carries the cluster's label, and the kept member \<^verbatim>\<open>best\<close> is a
  member whose score no other member exceeds.
\<close>

definition cluster_ok :: "Cluster \<Rightarrow> bool" where
  "cluster_ok cl =
     (items cl \<noteq> [] \<and> rep cl = hd (items cl) \<and> best cl \<in> set (items cl)
      \<and> list_all (\<lambda>m. phashClusterId m = cluster_id cl \<and> score m \<le> score (best cl)) (items cl))"

text \<open>The clusters carry the labels of their positions, counted from 1.\<close>

definition labelled :: "Cluster list \<Rightarrow> bool" where
  "labelled cls = (map cluster_id cls = map (\<lambda>k. cluster_label (k + 1)) [0..<length cls])"

text \<open>The two members of the specification's example of representative selection.\<close>

definition example_small :: Candidate where
  "example_small =
     \<lparr>cand_id = ''00000000000000aa'', filename = ''00000000000000aa.jpg'',
      sourcePage = ''https://agsafastpitch.com/'',
      sourceImageUrl = ''https://agsafastpitch.com/a.jpg'', alt = [],
      width = 900, height = 600, bytes = 50000,
      phash = ''ffff000000000000'', phashClusterId = []\<rparr>"

definition example_large :: Candidate where
  "example_large =
     \<lparr>cand_id = ''00000000000000bb'', filename = ''00000000000000bb.jpg'',
      sourcePage = ''https://agsafastpitch.com/'',
      sourceImageUrl = ''https://agsafastpitch.com/b.jpg'', alt = [],
      width = 640, height = 480, bytes = 80000,
      phash = ''ffff000100000000'', phashClusterId = []\<rparr>"

subsection \<open>The order of the manifest\<close>

text \<open>\<^verbatim>\<open>sorted(deduped, key=lambda x: (x.phashClusterId, -x.bytes))\<close>: a stable sort.\<close>

definition manifest_key :: "Candidate \<Rightarrow> string \<times> int" where
  "manifest_key x = (phashClusterId x, - bytes x)"

definition manifest_order :: "Candidate list \<Rightarrow> Candidate list" where
  "manifest_order deduped = sort_key manifest_key deduped"

text \<open>A candidate that carries a given cluster label.\<close>

definition with_label :: "string \<Rightarrow> Candidate" where
  "with_label l = example_small\<lparr>phashClusterId := l\<rparr>"

text \<open>
  A run with a thousand accepted images no two of which look alike: the \<open>k\<close>-th carries
  the fallback hash \<^verbatim>\<open>ahash-0000000000000\<close> followed by the three decimal digits of \<open>k\<close>.
\<close>

definition far_candidate :: "nat \<Rightarrow> Candidate" where
  "far_candidate k =
     \<lparr>cand_id = ''0000000000000'' @ format_03d k,
      filename = ''0000000000000'' @ format_03d k @ ''.jpg'',
      sourcePage = ''https://agsafastpitch.com/'',
      sourceImageUrl = ''https://agsafastpitch.com/photos/'' @ format_03d k @ ''.jpg'',
      alt = [], width = 800, height = 600, bytes = 50000,
      phash = ''ahash-0000000000000'' @ format_03d k, phashClusterId = []\<rparr>"

definition thousand_candidates :: "Candidate list" where
  "thousand_candidates = map far_candidate [0..<1000]"

subsection \<open>Computing the hash\<close>

text \<open>
  A decoded image, as far as the program reads it: the format name the decoder reports
  (empty when it reports none), the size, and the 64 grey values of
  \<^verbatim>\<open>image.convert("L").resize((8, 8))\<close>, each between 0 and 255.
\<close>

record Image =
  img_format :: string
  img_width :: int
  img_height :: int
  gray8x8 :: "int list"

definition hex_char :: "nat \<Rightarrow> char" where
  "hex_char d = (if d < 10 then char_of (48 + d) else char_of (87 + d))"

function hex_digits :: "int \<Rightarrow> string" where
  "hex_digits n =
     (if n < 16 then [hex_char (nat n)]
      else hex_digits (n div 16) @ [hex_char (nat (n mod 16))])"
  by pat_completeness auto
termination
  by (relation "measure nat") auto

declare hex_digits.simps [simp del]

text \<open>The format \<^verbatim>\<open>{n:016x}\<close> of a non-negative integer.\<close>

definition format_016x :: "int \<Rightarrow> string" where
  "format_016x n = replicate (16 - length (hex_digits n)) (CHR ''0'') @ hex_digits n"

text \<open>\<^verbatim>\<open>int(bits, 2)\<close> of a string of binary digits, here a list of booleans.\<close>

definition int_bits :: "bool list \<Rightarrow> int" where
  "int_bits bits = foldl (\<lambda>acc b. 2 * acc + (if b then 1 else 0)) 0 bits"

text \<open>
  \<^verbatim>\<open>compute_phash\<close>. The library \<^verbatim>\<open>imagehash\<close> is imported when it is installed: the
  first argument is its \<^verbatim>\<open>str(imagehash.phash(image))\<close> when it is, and \<open>None\<close> when it
  is not. The fallback compares each grey value \<open>p\<close> with the mean
  \<^verbatim>\<open>sum(pixels) / len(pixels)\<close>; with 64 values below 256 that quotient is exact in
  floating point, and \<open>p > avg\<close> is \<open>p * len > sum\<close>.
\<close>

definition compute_phash :: "(Image \<Rightarrow> string) option \<Rightarrow> Image \<Rightarrow> string" where
  "compute_phash imagehash img =
     (case imagehash of
        Some phash_str \<Rightarrow> phash_str img
      | None \<Rightarrow>
          (let pixels = gray8x8 img;
               bits = map (\<lambda>p. p * int (length pixels) > sum_list pixels) pixels
           in ''ahash-'' @ format_016x (int_bits bits)))"

text \<open>An image whose upper half is bright and whose lower half is dark.\<close>

definition example_image :: Image where
  "example_image =
     \<lparr>img_format = ''JPEG'', img_width = 1200, img_height = 800,
      gray8x8 = replicate 32 200 @ replicate 32 10\<rparr>"

text \<open>
  What \<^verbatim>\<open>str\<close> of an \<^verbatim>\<open>imagehash.ImageHash\<close> is: hexadecimal digits only.
\<close>

definition is_hex_string :: "string \<Rightarrow> bool" where
  "is_hex_string s = list_all (\<lambda>c. hex_val c \<noteq> None) s"

section \<open>The crawl\<close>

subsection \<open>More string operations\<close>

text \<open>\<^verbatim>\<open>c in s\<close> for a character, and \<^verbatim>\<open>p in s\<close> for a substring.\<close>

fun suffixes :: "string \<Rightarrow> string list" where
  "suffixes [] = [[]]"
| "suffixes (x # xs) = (x # xs) # suffixes xs"

definition contains :: "string \<Rightarrow> string \<Rightarrow> bool" where
  "contains s p = list_ex (\<lambda>t. startswith t p) (suffixes s)"

text \<open>\<^verbatim>\<open>s.split(c, 1)\<close> as a pair: the text before the first \<open>c\<close> and the text after it (empty when there is no \<open>c\<close>).\<close>

definition split_first :: "char \<Rightarrow> string \<Rightarrow> string \<times> string" where
  "split_first c s =
     (takeWhile (\<lambda>x. x \<noteq> c) s, drop (length (takeWhile (\<lambda>x. x \<noteq> c) s) + 1) s)"

text \<open>\<^verbatim>\<open>s.rpartition(c)[2]\<close>: the text after the last \<open>c\<close>, all of \<open>s\<close> when there is none.\<close>

definition after_last :: "char \<Rightarrow> string \<Rightarrow> string" where
  "after_last c s = rev (takeWhile (\<lambda>x. x \<noteq> c) (rev s))"

text \<open>\<^verbatim>\<open>s.rfind(c)\<close> when \<open>c\<close> occurs in \<open>s\<close>.\<close>

definition rfind :: "char \<Rightarrow> string \<Rightarrow> nat" where
  "rfind c s = length s - 1 - length (takeWhile (\<lambda>x. x \<noteq> c) (rev s))"

text \<open>\<^verbatim>\<open>s.split(c)\<close>.\<close>

fun split_on :: "char \<Rightarrow> string \<Rightarrow> string list" where
  "split_on c [] = [[]]"
| "split_on c (x # xs) =
     (if x = c then [] # split_on c xs
      else (case split_on c xs of
              y # ys \<Rightarrow> (x # y) # ys
            | [] \<Rightarrow> [[x]]))"

text \<open>\<^verbatim>\<open>str.strip()\<close> on ASCII text: white space is removed at both ends.\<close>

definition is_py_space :: "char \<Rightarrow> bool" where
  "is_py_space c = (of_char c \<in> set [9, 10, 11, 12, 13, 28, 29, 30, 31, 32 :: nat])"

definition strip :: "string \<Rightarrow> string" where
  "strip s = rev (dropWhile is_py_space (rev (dropWhile is_py_space s)))"

text \<open>\<^verbatim>\<open>s.rstrip("/")\<close>.\<close>

definition rstrip_slash :: "string \<Rightarrow> string" where
  "rstrip_slash s = rev (dropWhile (\<lambda>c. c = CHR ''/'') (rev s))"

text \<open>\<^verbatim>\<open>list(dict.fromkeys(xs))\<close>: duplicates are dropped, the first occurrence stays.\<close>

fun dedupe :: "'a list \<Rightarrow> 'a list" where
  "dedupe [] = []"
| "dedupe (x # xs) = x # dedupe (filter (\<lambda>y. y \<noteq> x) xs)"

subsection \<open>\<^verbatim>\<open>urllib.parse.urlparse\<close>\<close>

text \<open>
  The six components of CPython's \<^verbatim>\<open>urlparse\<close>, computed the way \<^verbatim>\<open>urlsplit\<close> and
  \<^verbatim>\<open>urlparse\<close> compute them. The \<^verbatim>\<open>ValueError\<close> that \<^verbatim>\<open>urlsplit\<close> raises for a
  malformed bracketed host is not modelled: such a URL is split like any other.
\<close>

record ParseResult =
  scheme :: string
  netloc :: string
  path :: string
  params :: string
  query :: string
  fragment :: string

definition is_alpha :: "char \<Rightarrow> bool" where
  "is_alpha c = (let n = of_char c :: nat in (65 \<le> n \<and> n \<le> 90) \<or> (97 \<le> n \<and> n \<le> 122))"

definition is_scheme_char :: "char \<Rightarrow> bool" where
  "is_scheme_char c =
     (let n = of_char c :: nat
      in is_alpha c \<or> (48 \<le> n \<and> n \<le> 57) \<or> c = CHR ''+'' \<or> c = CHR ''-'' \<or> c = CHR ''.'')"

text \<open>Leading C0 control characters and spaces are stripped; tab, CR and LF are removed everywhere.\<close>

definition clean_url :: "string \<Rightarrow> string" where
  "clean_url url =
     filter (\<lambda>c. of_char c \<notin> set [9, 10, 13 :: nat])
       (dropWhile (\<lambda>c. (of_char c :: nat) \<le> 32) url)"

definition split_scheme :: "string \<Rightarrow> string \<times> string" where
  "split_scheme url =
     (let pre = takeWhile (\<lambda>c. c \<noteq> CHR '':'') url
      in if length pre < length url \<and> pre \<noteq> [] \<and> is_alpha (hd pre) \<and> list_all is_scheme_char pre
         then (lower pre, drop (length pre + 1) url)
         else ([], url))"

definition split_netloc :: "string \<Rightarrow> string \<times> string" where
  "split_netloc url =
     (if take 2 url = ''//''
      then (let n = takeWhile (\<lambda>c. c \<notin> set ''/?#'') (drop 2 url)
            in (n, drop (length n) (drop 2 url)))
      else ([], url))"

definition uses_params :: "string list" where
  "uses_params =
     [[], ''ftp'', ''hdl'', ''prospero'', ''http'', ''imap'', ''https'', ''shttp'', ''rtsp'',
      ''rtspu'', ''sip'', ''sips'', ''mms'', ''sftp'', ''tel'']"

text \<open>\<^verbatim>\<open>_splitparams\<close>, called when the path holds a semicolon: the parameters of the last segment.\<close>

definition splitparams :: "string \<Rightarrow> string \<times> string" where
  "splitparams url =
     (let start = (if CHR ''/'' \<in> set url then rfind (CHR ''/'') url else 0);
          pre = takeWhile (\<lambda>c. c \<noteq> CHR '';'') (drop start url)
      in if length pre < length (drop start url)
         then (take (start + length pre) url, drop (start + length pre + 1) url)
         else (url, []))"

definition urlparse :: "string \<Rightarrow> ParseResult" where
  "urlparse url =
     (let (sch, u1) = split_scheme (clean_url url);
          (loc, u2) = split_netloc u1;
          (u3, frag) = split_first (CHR ''#'') u2;
          (u4, qry) = split_first (CHR ''?'') u3;
          (u5, prm) = (if sch \<in> set uses_params \<and> CHR '';'' \<in> set u4
                       then splitparams u4 else (u4, []))
      in \<lparr>scheme = sch, netloc = loc, path = u5, params = prm, query = qry, fragment = frag\<rparr>)"

text \<open>The property \<^verbatim>\<open>hostname\<close> of a parse result; \<open>None\<close> is Python's \<^verbatim>\<open>None\<close>.\<close>

definition hostname :: "ParseResult \<Rightarrow> string option" where
  "hostname p =
     (let hostinfo = after_last (CHR ''@'') (netloc p);
          h = (if CHR ''['' \<in> set hostinfo
               then takeWhile (\<lambda>c. c \<noteq> CHR '']'')
                      (drop 1 (dropWhile (\<lambda>c. c \<noteq> CHR ''['') hostinfo))
               else takeWhile (\<lambda>c. c \<noteq> CHR '':'') hostinfo)
      in if h = [] then None
         else Some (lower (takeWhile (\<lambda>c. c \<noteq> CHR ''%'') h)
                    @ dropWhile (\<lambda>c. c \<noteq> CHR ''%'') h))"

definition canonical_page :: "string \<Rightarrow> string" where
  "canonical_page url =
     (let parsed = urlparse url;
          p = (if path parsed = [] then ''/'' else path parsed)
      in scheme parsed @ ''://'' @ netloc parsed @ p)"

definition same_domain :: "string \<Rightarrow> string \<Rightarrow> bool" where
  "same_domain url base_hostname = (hostname (urlparse url) = Some base_hostname)"

definition allowed_image_domain :: "string \<Rightarrow> string list \<Rightarrow> bool" where
  "allowed_image_domain url allowed_domains =
     (let host = lower (case hostname (urlparse url) of None \<Rightarrow> [] | Some h \<Rightarrow> h)
      in list_ex (\<lambda>domain. host = lower domain \<or> endswith host (''.'' @ lower domain))
           allowed_domains)"

subsection \<open>\<^verbatim>\<open>pathlib\<close>: the name and the suffix of a path\<close>

text \<open>
  \<^verbatim>\<open>Path(p).name\<close> on a POSIX system: the last component of the path, where empty
  components and single dots do not count. \<^verbatim>\<open>Path(p).suffix\<close>: the name from its last dot
  on, when that dot is neither the first nor the last character of the name.
\<close>

definition path_name :: "string \<Rightarrow> string" where
  "path_name p =
     (case rev (filter (\<lambda>part. part \<noteq> [] \<and> part \<noteq> ''.'') (split_on (CHR ''/'') p)) of
        [] \<Rightarrow> []
      | name # _ \<Rightarrow> name)"

definition name_suffix :: "string \<Rightarrow> string" where
  "name_suffix name =
     (if CHR ''.'' \<in> set name \<and> 0 < rfind (CHR ''.'') name \<and> rfind (CHR ''.'') name < length name - 1
      then drop (rfind (CHR ''.'') name) name
      else [])"

definition path_suffix :: "string \<Rightarrow> string" where
  "path_suffix p = name_suffix (path_name p)"

subsection \<open>The regular expressions\<close>

text \<open>
  \<^verbatim>\<open>IMG_EXT_RE = \.(jpg|jpeg|png|webp|gif|bmp|tiff|avif)(?:\?.*)?$\<close>, case-insensitive.
  After the extension the text must end (a final line feed is allowed before the end), or
  a question mark follows and then no line feed before the end.
\<close>

definition IMG_EXTS :: "string list" where
  "IMG_EXTS = [''jpg'', ''jpeg'', ''png'', ''webp'', ''gif'', ''bmp'', ''tiff'', ''avif'']"

definition at_end :: "string \<Rightarrow> bool" where
  "at_end r = (r = [] \<or> r = [CHR 0x0A])"

definition ext_tail_ok :: "string \<Rightarrow> bool" where
  "ext_tail_ok r =
     (at_end r
      \<or> (case r of
            [] \<Rightarrow> False
          | c # q \<Rightarrow> c = CHR ''?'' \<and> at_end (dropWhile (\<lambda>x. x \<noteq> CHR 0x0A) q)))"

definition matches_ext_at :: "string \<Rightarrow> bool" where
  "matches_ext_at t =
     (case t of
        [] \<Rightarrow> False
      | c # r \<Rightarrow>
          c = CHR ''.''
          \<and> list_ex (\<lambda>e. lower (take (length e) r) = e \<and> ext_tail_ok (drop (length e) r)) IMG_EXTS)"

definition IMG_EXT_RE_search :: "string \<Rightarrow> bool" where
  "IMG_EXT_RE_search url = list_ex matches_ext_at (suffixes url)"

text \<open>\<^verbatim>\<open>LOGO_HINT_RE = (logo|icon|favicon|badge|wordmark|emblem|avatar)\<close>, case-insensitive.\<close>

definition LOGO_HINTS :: "string list" where
  "LOGO_HINTS = [''logo'', ''icon'', ''favicon'', ''badge'', ''wordmark'', ''emblem'', ''avatar'']"

definition LOGO_HINT_RE_search :: "string \<Rightarrow> bool" where
  "LOGO_HINT_RE_search s = list_ex (\<lambda>w. contains (lower s) w) LOGO_HINTS"

subsection \<open>Filtering an image\<close>

definition KNOWN_EXTS :: "string list" where
  "KNOWN_EXTS =
     [''.jpg'', ''.jpeg'', ''.png'', ''.webp'', ''.gif'', ''.bmp'', ''.tif'', ''.tiff'', ''.avif'']"

definition guess_extension :: "string \<Rightarrow> Image \<Rightarrow> string" where
  "guess_extension url img =
     (let ext = lower (path_suffix (path (urlparse url)))
      in if ext \<in> set KNOWN_EXTS then (if ext \<noteq> ''.jpeg'' then ext else ''.jpg'')
         else (let fmt = lower (img_format img)
               in if fmt = ''jpeg'' then ''.jpg''
                  else if fmt \<noteq> [] then ''.'' @ fmt
                  else ''.jpg''))"

definition should_skip :: "string \<Rightarrow> int \<Rightarrow> int \<Rightarrow> int \<Rightarrow> string \<Rightarrow> bool" where
  "should_skip url w h num_bytes ext =
     (let fname = lower (path_name (path (urlparse url)));
          longest = max w h
      in if ext = ''.svg'' then True
         else if LOGO_HINT_RE_search fname then True
         else if num_bytes < MIN_BYTES then True
         else if longest < MIN_LONGEST_SIDE then True
         else False)"

text \<open>
  The test before the download in \<^verbatim>\<open>main\<close>: the extension of the URL's path is not
  empty, the expression \<^verbatim>\<open>IMG_EXT_RE\<close> finds nothing in the whole URL, and the extension
  is not \<^verbatim>\<open>.svg\<close>.
\<close>

definition rejected_by_extension :: "string \<Rightarrow> bool" where
  "rejected_by_extension image_url =
     (let ext_hint = lower (path_suffix (path (urlparse image_url)))
      in ext_hint \<noteq> [] \<and> \<not> IMG_EXT_RE_search image_url \<and> ext_hint \<noteq> ''.svg'')"

subsection \<open>The world outside the program\<close>

text \<open>
  A response of the HTTP client, as far as the program reads it: the status code, the
  value of the header \<^verbatim>\<open>Content-Type\<close> (empty when the header is missing), the decoded
  text and the raw bytes.
\<close>

record Response =
  status_code :: int
  content_type :: string
  resp_text :: string
  resp_content :: string

text \<open>\<^verbatim>\<open>response.ok\<close> of the library \<^verbatim>\<open>requests\<close>: false for the codes 400 to 599.\<close>

definition ok :: "Response \<Rightarrow> bool" where
  "ok r = (\<not> (400 \<le> status_code r \<and> status_code r < 600))"

text \<open>
  The collaborators the program calls but does not define. \<open>http_get n url\<close> is the
  outcome of \<^verbatim>\<open>session.get(url)\<close> when \<open>n\<close> requests were made before it in the run
  (\<open>None\<close> is a \<^verbatim>\<open>RequestException\<close>: a timeout or a connection error); so a server may
  answer the same URL differently at different times. \<open>can_fetch\<close> is the verdict of the
  robots parser. \<open>found_links html page_url\<close> lists, in document order, the values of
  \<^verbatim>\<open>normalize_url(page_url, a["href"])\<close> that are not \<^verbatim>\<open>None\<close>, and \<open>found_images\<close>
  is the list \<^verbatim>\<open>found\<close> that \<^verbatim>\<open>extract_image_urls\<close> builds before it removes
  duplicates: both rest on the HTML parser and on \<^verbatim>\<open>urljoin\<close>. \<open>image_open\<close> decodes
  bytes (\<open>None\<close> when the decoder raises), \<open>sha1_hexdigest\<close> is the digest of the bytes,
  and \<open>imagehash\<close> is the perceptual hash of the library when it is installed.
\<close>

record Env =
  http_get :: "nat \<Rightarrow> string \<Rightarrow> Response option"
  can_fetch :: "string \<Rightarrow> bool"
  found_links :: "string \<Rightarrow> string \<Rightarrow> string list"
  found_images :: "string \<Rightarrow> string \<Rightarrow> (string \<times> string) list"
  image_open :: "string \<Rightarrow> Image option"
  sha1_hexdigest :: "string \<Rightarrow> string"
  imagehash :: "(Image \<Rightarrow> string) option"

text \<open>The command line: the options that the crawl reads.\<close>

record Args =
  base_url :: string
  max_pages :: int
  max_depth :: int
  allow_domains :: string

text \<open>
  The state of a run: the three variables of the loop in \<^verbatim>\<open>main\<close> (the dictionary
  \<^verbatim>\<open>downloaded_by_url\<close> keeps its insertion order, so it is a list of pairs), the names
  of the files in the output directory, and three histories that the program does not
  keep: every URL handed to \<^verbatim>\<open>session.get\<close>, in order; the pauses with which
  \<^verbatim>\<open>download_image\<close> backs off, in milliseconds; and the pages for which the loop called
  \<^verbatim>\<open>polite_get\<close>, in order. The wait of \<^verbatim>\<open>polite_get\<close> that spaces the requests depends
  on the clock and is not modelled.
\<close>

record CrawlState =
  queue :: "(string \<times> int) list"
  visited_pages :: "string fset"
  downloaded_by_url :: "(string \<times> Candidate) list"
  files :: "string list"
  requests :: "string list"
  backoffs :: "nat list"
  fetched_pages :: "string list"

subsection \<open>Fetching\<close>

definition polite_get :: "Env \<Rightarrow> string \<Rightarrow> CrawlState \<Rightarrow> Response option \<times> CrawlState" where
  "polite_get env url s =
     (http_get env (length (requests s)) url, s\<lparr>requests := requests s @ [url]\<rparr>)"

text \<open>
  \<^verbatim>\<open>download_image\<close>: the loop \<^verbatim>\<open>for attempt in range(1, MAX_RETRIES + 1)\<close> runs over
  the list of attempts that are left.
\<close>

fun download_attempts ::
  "Env \<Rightarrow> string \<Rightarrow> nat list \<Rightarrow> CrawlState \<Rightarrow> string option \<times> CrawlState" where
  "download_attempts env url [] s = (None, s)"
| "download_attempts env url (attempt # rest) s =
     (case polite_get env url s of
        (None, s1) \<Rightarrow>
          download_attempts env url rest (s1\<lparr>backoffs := backoffs s1 @ [350 * attempt]\<rparr>)
      | (Some response, s1) \<Rightarrow>
          if status_code response = 403 \<or> status_code response = 404 then (None, s1)
          else if status_code response \<ge> 500
          then download_attempts env url rest (s1\<lparr>backoffs := backoffs s1 @ [500 * attempt]\<rparr>)
          else if \<not> ok response then (None, s1)
          else (Some (resp_content response), s1))"

definition download_image :: "Env \<Rightarrow> string \<Rightarrow> CrawlState \<Rightarrow> string option \<times> CrawlState" where
  "download_image env url s = download_attempts env url [1..<MAX_RETRIES + 1] s"

subsection \<open>Extraction\<close>

definition extract_links :: "Env \<Rightarrow> string \<Rightarrow> string \<Rightarrow> string \<Rightarrow> string list" where
  "extract_links env html page_url base_hostname =
     dedupe (map canonical_page
       (filter (\<lambda>url. scheme (urlparse url) \<in> set [''http'', ''https'']
                       \<and> same_domain url base_hostname)
          (found_links env html page_url)))"

fun dedupe_src :: "(string \<times> string) list \<Rightarrow> (string \<times> string) list" where
  "dedupe_src [] = []"
| "dedupe_src ((src, a) # rest) = (src, a) # dedupe_src (filter (\<lambda>p. fst p \<noteq> src) rest)"

definition extract_image_urls :: "Env \<Rightarrow> string \<Rightarrow> string \<Rightarrow> (string \<times> string) list" where
  "extract_image_urls env html page_url = dedupe_src (found_images env html page_url)"

subsection \<open>The loop of \<^verbatim>\<open>main\<close>\<close>

text \<open>The body of the loop over the images of a page.\<close>

definition process_image ::
  "Env \<Rightarrow> string list \<Rightarrow> string \<Rightarrow> string \<times> string \<Rightarrow> CrawlState \<Rightarrow> CrawlState" where
  "process_image env allowed_domains page_url entry s =
     (let image_url = fst entry; alt_text = snd entry
      in if image_url \<in> set (map fst (downloaded_by_url s)) then s
         else if \<not> allowed_image_domain image_url allowed_domains then s
         else if rejected_by_extension image_url then s
         else (case download_image env image_url s of
                 (None, s1) \<Rightarrow> s1
               | (Some blob, s1) \<Rightarrow>
                   if blob = [] then s1
                   else (case image_open env blob of
                           None \<Rightarrow> s1
                         | Some img \<Rightarrow>
                             (let num_bytes = int (length blob);
                                  ext = guess_extension image_url img
                              in if should_skip image_url (img_width img) (img_height img)
                                      num_bytes ext
                                 then s1
                                 else (let digest = take 16 (sha1_hexdigest env blob);
                                           fname = digest @ ext;
                                           candidate =
                                             \<lparr>cand_id = digest, filename = fname,
                                              sourcePage = page_url, sourceImageUrl = image_url,
                                              alt = alt_text, width = img_width img,
                                              height = img_height img, bytes = num_bytes,
                                              phash = compute_phash (imagehash env) img,
                                              phashClusterId = []\<rparr>
                                       in s1\<lparr>files := (if fname \<in> set (files s1) then files s1
                                                        else files s1 @ [fname]),
                                             downloaded_by_url :=
                                               downloaded_by_url s1 @ [(image_url, candidate)]\<rparr>)))))"

text \<open>The body of the loop over the links of a page.\<close>

definition enqueue_link :: "int \<Rightarrow> string \<Rightarrow> CrawlState \<Rightarrow> CrawlState" where
  "enqueue_link depth link s =
     (if link |\<notin>| visited_pages s then s\<lparr>queue := queue s @ [(link, depth + 1)]\<rparr> else s)"

text \<open>
  What the loop reads from a response: nothing when \<^verbatim>\<open>response is None or not
  response.ok or "text/html" not in response.headers.get("Content-Type", "")\<close>, and
  \<^verbatim>\<open>response.text\<close> otherwise.
\<close>

definition page_html :: "Response option \<Rightarrow> string option" where
  "page_html response =
     (case response of
        None \<Rightarrow> None
      | Some r \<Rightarrow>
          if \<not> ok r \<or> \<not> contains (content_type r) ''text/html'' then None
          else Some (resp_text r))"

text \<open>
  One iteration of \<^verbatim>\<open>while queue and len(visited_pages) < args.max_pages\<close>, entered
  with the condition true.
\<close>

definition crawl_step :: "Env \<Rightarrow> Args \<Rightarrow> string \<Rightarrow> string list \<Rightarrow> CrawlState \<Rightarrow> CrawlState" where
  "crawl_step env args base_hostname allowed_domains s =
     (case queue s of
        [] \<Rightarrow> s
      | (page_url, depth) # rest \<Rightarrow>
          (let s0 = s\<lparr>queue := rest\<rparr>
           in if page_url |\<in>| visited_pages s0 then s0
              else if depth > max_depth args then s0
              else if \<not> can_fetch env page_url then s0
              else (case polite_get env page_url s0 of
                      (response, s1) \<Rightarrow>
                        (let s2 = s1\<lparr>fetched_pages := fetched_pages s1 @ [page_url],
                                      visited_pages := finsert page_url (visited_pages s1)\<rparr>
                         in (case page_html response of
                               None \<Rightarrow> s2
                             | Some html \<Rightarrow>
                                 (let s3 = fold (enqueue_link depth)
                                             (extract_links env html page_url base_hostname) s2
                                  in fold (process_image env allowed_domains page_url)
                                       (extract_image_urls env html page_url) s3))))))"

function crawl :: "Env \<Rightarrow> Args \<Rightarrow> string \<Rightarrow> string list \<Rightarrow> CrawlState \<Rightarrow> CrawlState" where
  "crawl env args base_hostname allowed_domains s =
     (if queue s \<noteq> [] \<and> int (fcard (visited_pages s)) < max_pages args
      then crawl env args base_hostname allowed_domains
             (crawl_step env args base_hostname allowed_domains s)
      else s)"
  by pat_completeness auto
termination
proof (relation "measures
    [\<lambda>(env, args, base_hostname, allowed_domains, s).
        nat (max_pages args - int (fcard (visited_pages s))),
     \<lambda>(env, args, base_hostname, allowed_domains, s). length (queue s)]")
  show "wf (measures
    [\<lambda>(env :: Env, args, base_hostname :: string, allowed_domains :: string list, s).
        nat (max_pages args - int (fcard (visited_pages s))),
     \<lambda>(env, args, base_hostname, allowed_domains, s). length (queue s)])"
    by simp
next
  fix env :: Env and args :: Args and base_hostname :: string
    and allowed_domains :: "string list" and s :: CrawlState
  assume cond: "queue s \<noteq> [] \<and> int (fcard (visited_pages s)) < max_pages args"
  have attempts: "\<And>url atts t. visited_pages (snd (download_attempts env url atts t)) = visited_pages t
      \<and> queue (snd (download_attempts env url atts t)) = queue t"
  proof -
    fix url atts t
    show "visited_pages (snd (download_attempts env url atts t)) = visited_pages t
      \<and> queue (snd (download_attempts env url atts t)) = queue t"
      by (induction atts arbitrary: t) (simp_all add: polite_get_def split: option.split)
  qed
  have image: "\<And>page entry t. visited_pages (process_image env allowed_domains page entry t) = visited_pages t
      \<and> queue (process_image env allowed_domains page entry t) = queue t"
  proof -
    fix page and entry :: "string \<times> string" and t
    obtain r t1 where d: "download_image env (fst entry) t = (r, t1)" by fastforce
    then have "visited_pages t1 = visited_pages t \<and> queue t1 = queue t"
      using attempts [of "fst entry" "[1..<MAX_RETRIES + 1]" t] by (simp add: download_image_def)
    then show "visited_pages (process_image env allowed_domains page entry t) = visited_pages t
      \<and> queue (process_image env allowed_domains page entry t) = queue t"
      using d by (simp add: process_image_def Let_def split: option.split)
  qed
  have images: "\<And>page entries t.
      visited_pages (fold (process_image env allowed_domains page) entries t) = visited_pages t
      \<and> queue (fold (process_image env allowed_domains page) entries t) = queue t"
  proof -
    fix page entries t
    show "visited_pages (fold (process_image env allowed_domains page) entries t) = visited_pages t
      \<and> queue (fold (process_image env allowed_domains page) entries t) = queue t"
      by (induction entries arbitrary: t) (simp_all add: image)
  qed
  have links: "\<And>depth ls t. visited_pages (fold (enqueue_link depth) ls t) = visited_pages t"
  proof -
    fix depth ls t
    show "visited_pages (fold (enqueue_link depth) ls t) = visited_pages t"
      by (induction ls arbitrary: t) (simp_all add: enqueue_link_def)
  qed
  from cond obtain page_url depth rest where q: "queue s = (page_url, depth) # rest"
    by (cases "queue s") auto
  let ?s' = "crawl_step env args base_hostname allowed_domains s"
  have "(visited_pages ?s' = visited_pages s \<and> queue ?s' = rest)
        \<or> (page_url |\<notin>| visited_pages s \<and> visited_pages ?s' = finsert page_url (visited_pages s))"
    using q by (simp add: crawl_step_def Let_def polite_get_def images links split: option.split)
  then show "((env, args, base_hostname, allowed_domains, ?s'),
              (env, args, base_hostname, allowed_domains, s))
      \<in> measures
          [\<lambda>(env, args, base_hostname, allowed_domains, s).
              nat (max_pages args - int (fcard (visited_pages s))),
           \<lambda>(env, args, base_hostname, allowed_domains, s). length (queue s)]"
  proof
    assume "visited_pages ?s' = visited_pages s \<and> queue ?s' = rest"
    with q show ?thesis by simp
  next
    assume a: "page_url |\<notin>| visited_pages s \<and> visited_pages ?s' = finsert page_url (visited_pages s)"
    then have "fcard (visited_pages ?s') = Suc (fcard (visited_pages s))"
      by (simp add: fcard_finsert_disjoint)
    with cond show ?thesis by simp
  qed
qed

declare crawl.simps [simp del]

text \<open>Removing the stored images that did not survive, at the end of \<^verbatim>\<open>main\<close>.\<close>

definition PRUNED_EXTS :: "string list" where
  "PRUNED_EXTS = [''.jpg'', ''.jpeg'', ''.png'', ''.webp'', ''.gif'', ''.bmp'', ''.tiff'']"

text \<open>
  Every name of the directory is a regular file here, and \<^verbatim>\<open>unlink\<close> succeeds (the
  program ignores its \<^verbatim>\<open>OSError\<close>, which leaves the file in place).
\<close>

definition prune :: "string list \<Rightarrow> string list \<Rightarrow> string list" where
  "prune keep_filenames names =
     filter (\<lambda>name. \<not> (lower (name_suffix name) \<in> set PRUNED_EXTS
                        \<and> name \<notin> set keep_filenames)) names"

definition add_file :: "string \<Rightarrow> string list \<Rightarrow> string list" where
  "add_file name names = (if name \<in> set names then names else names @ [name])"

subsection \<open>\<^verbatim>\<open>main\<close>\<close>

record Outcome =
  exit_code :: int
  final :: CrawlState
  manifest :: "Candidate list"

definition initial_state :: "string \<Rightarrow> string list \<Rightarrow> CrawlState" where
  "initial_state base names =
     \<lparr>queue = [(canonical_page base, 0)], visited_pages = {||}, downloaded_by_url = [],
      files = names, requests = [], backoffs = [], fetched_pages = []\<rparr>"

text \<open>
  \<^verbatim>\<open>main\<close>, given the names of the files that the output directory holds when the run
  starts. The request for \<^verbatim>\<open>robots.txt\<close> is made by the robots parser, not by the
  session, and is part of \<open>can_fetch\<close>. \<open>finish\<close> is what \<^verbatim>\<open>main\<close> does after the loop:
  clustering, pruning the stored files, and writing the manifest, the default approval
  file and the review page.
\<close>

definition finish :: "CrawlState \<Rightarrow> Outcome" where
  "finish s =
     (let deduped = cluster_candidates (map snd (downloaded_by_url s));
          keep_filenames = map filename deduped;
          kept = prune keep_filenames (files s);
          written = add_file ''review.html''
                      (add_file ''approved-manifest.json'' (add_file ''manifest.json'' kept))
      in \<lparr>exit_code = 0, final = s\<lparr>files := written\<rparr>, manifest = manifest_order deduped\<rparr>)"

definition main :: "Env \<Rightarrow> Args \<Rightarrow> string list \<Rightarrow> Outcome" where
  "main env args names =
     (let base = rstrip_slash (base_url args);
          base_parsed = urlparse base;
          invalid = \<lparr>exit_code = 1, final = (initial_state base names)\<lparr>queue := []\<rparr>,
                     manifest = []\<rparr>
      in if scheme base_parsed \<notin> set [''http'', ''https''] then invalid
         else (case hostname base_parsed of
                 None \<Rightarrow> invalid
               | Some base_hostname \<Rightarrow>
                   (let allowed_domains =
                          map (\<lambda>d. lower (strip d))
                            (filter (\<lambda>d. strip d \<noteq> [])
                               (split_on (CHR '','') (allow_domains args)))
                          @ [lower base_hostname]
                    in finish (crawl env args base_hostname allowed_domains
                                 (initial_state base names)))))"

subsection \<open>Example sites\<close>

text \<open>The default command line of the program.\<close>

definition default_args :: Args where
  "default_args =
     \<lparr>base_url = ''https://agsafastpitch.com'', max_pages = 200, max_depth = 3,
      allow_domains = ''agsafastpitch.com,cdn2.sportngin.com''\<rparr>"

definition page_response :: "string \<Rightarrow> Response" where
  "page_response html =
     \<lparr>status_code = 200, content_type = ''text/html; charset=utf-8'',
      resp_text = html, resp_content = html\<rparr>"

definition image_response :: "string \<Rightarrow> Response" where
  "image_response blob =
     \<lparr>status_code = 200, content_type = ''image/png'', resp_text = [], resp_content = blob\<rparr>"

definition error_response :: "int \<Rightarrow> Response" where
  "error_response code =
     \<lparr>status_code = code, content_type = ''text/html'', resp_text = [], resp_content = []\<rparr>"

text \<open>
  A site of two pages, the home page and a page it links to; both show the same small
  picture, whose 25 bytes decode to an image of 1200 by 800 pixels.
\<close>

definition thumb_site :: Env where
  "thumb_site =
     \<lparr>http_get = (\<lambda>n url.
        if url = ''https://agsafastpitch.com/'' then Some (page_response ''home'')
        else if url = ''https://agsafastpitch.com/teams'' then Some (page_response ''teams'')
        else if url = ''https://agsafastpitch.com/media/thumb.png''
        then Some (image_response ''the bytes of a small file'')
        else None),
      can_fetch = (\<lambda>url. True),
      found_links = (\<lambda>html page_url.
        if html = ''home'' then [''https://agsafastpitch.com/teams''] else []),
      found_images = (\<lambda>html page_url. [(''https://agsafastpitch.com/media/thumb.png'', ''Team'')]),
      image_open = (\<lambda>blob. Some \<lparr>img_format = ''PNG'', img_width = 1200, img_height = 800,
                                  gray8x8 = replicate 64 128\<rparr>),
      sha1_hexdigest = (\<lambda>blob. ''0123456789abcdef0123456789abcdef01234567''),
      imagehash = None\<rparr>"

text \<open>
  A site whose home page is answered with status 503 on the first request of the run and
  with the page on every later one.
\<close>

definition flaky_site :: Env where
  "flaky_site =
     \<lparr>http_get = (\<lambda>n url.
        if url = ''https://agsafastpitch.com/''
        then (if n = 0 then Some (error_response 503) else Some (page_response ''home''))
        else None),
      can_fetch = (\<lambda>url. True),
      found_links = (\<lambda>html page_url. []),
      found_images = (\<lambda>html page_url. []),
      image_open = (\<lambda>blob. None),
      sha1_hexdigest = (\<lambda>blob. ''0123456789abcdef0123456789abcdef01234567''),
      imagehash = None\<rparr>"

text \<open>
  A server that answers an image with status 503 on the first request and with the bytes
  on every later one.
\<close>

definition flaky_image_server :: Env where
  "flaky_image_server =
     \<lparr>http_get = (\<lambda>n url.
        if url = ''https://agsafastpitch.com/media/team.jpg''
        then (if n = 0 then Some (error_response 503)
              else Some (image_response ''the bytes of a picture''))
        else None),
      can_fetch = (\<lambda>url. True),
      found_links = (\<lambda>html page_url. []),
      found_images = (\<lambda>html page_url. []),
      image_open = (\<lambda>blob. None),
      sha1_hexdigest = (\<lambda>blob. ''0123456789abcdef0123456789abcdef01234567''),
      imagehash = None\<rparr>"

text \<open>A site whose home page shows a picture served by a script.\<close>

definition script_site :: Env where
  "script_site =
     \<lparr>http_get = (\<lambda>n url.
        if url = ''https://agsafastpitch.com/'' then Some (page_response ''home'')
        else if url = ''https://agsafastpitch.com/gallery.php?file=team.jpg''
        then Some (image_response ''the bytes of a small file'')
        else None),
      can_fetch = (\<lambda>url. True),
      found_links = (\<lambda>html page_url. []),
      found_images = (\<lambda>html page_url.
        [(''https://agsafastpitch.com/gallery.php?file=team.jpg'', ''Team'')]),
      image_open = (\<lambda>blob. Some \<lparr>img_format = ''JPEG'', img_width = 1200, img_height = 800,
                                  gray8x8 = replicate 64 128\<rparr>),
      sha1_hexdigest = (\<lambda>blob. ''0123456789abcdef0123456789abcdef01234567''),
      imagehash = None\<rparr>"

text \<open>A site whose home page shows no picture.\<close>

definition bare_site :: Env where
  "bare_site =
     \<lparr>http_get = (\<lambda>n url.
        if url = ''https://agsafastpitch.com/'' then Some (page_response ''home'') else None),
      can_fetch = (\<lambda>url. True),
      found_links = (\<lambda>html page_url. []),
      found_images = (\<lambda>html page_url. []),
      image_open = (\<lambda>blob. None),
      sha1_hexdigest = (\<lambda>blob. ''0123456789abcdef0123456789abcdef01234567''),
      imagehash = None\<rparr>"

definition empty_state :: CrawlState where
  "empty_state =
     \<lparr>queue = [], visited_pages = {||}, downloaded_by_url = [], files = [], requests = [],
      backoffs = [], fetched_pages = []\<rparr>"


section \<open>Properties of the clustering\<close>

subsection \<open>The search for a cluster and one iteration of the loop\<close>

lemma find_cluster_Some_iff:
  "find_cluster c cls = Some i \<longleftrightarrow>
     (i < length cls \<and> within_threshold c (cls ! i) \<and> (\<forall>j<i. \<not> within_threshold c (cls ! j)))"
proof (induction cls arbitrary: i)
  case Nil
  then show ?case by simp
next
  case (Cons cl cls)
  show ?case
  proof (cases "within_threshold c cl")
    case True
    then show ?thesis by (cases i) auto
  next
    case False
    show ?thesis
    proof (cases i)
      case 0
      with False show ?thesis by auto
    next
      case (Suc k)
      have "(\<forall>j<Suc k. \<not> within_threshold c ((cl # cls) ! j)) \<longleftrightarrow> (\<forall>j<k. \<not> within_threshold c (cls ! j))"
        using False by (auto simp: less_Suc_eq_0_disj)
      with False Suc Cons.IH [of k] show ?thesis by auto
    qed
  qed
qed

lemma find_cluster_None_iff:
  "find_cluster c cls = None \<longleftrightarrow> (\<forall>cl \<in> set cls. \<not> within_threshold c cl)"
  by (induction cls) auto

lemma find_cluster_first_within:
  "find_cluster c cls = first_within (phash c) (map (\<lambda>cl. phash (rep cl)) cls)"
  by (induction cls) (auto simp: within_threshold_def PHASH_DISTANCE_THRESHOLD_def)

lemma cluster_step_Some:
  assumes "find_cluster c cls = Some i"
  shows "cluster_step cls c =
           (cls[i := (cls ! i)\<lparr>items := items (cls ! i) @ [c\<lparr>phashClusterId := cluster_id (cls ! i)\<rparr>],
                               best := choose_better (best (cls ! i)) (c\<lparr>phashClusterId := cluster_id (cls ! i)\<rparr>)\<rparr>],
            c\<lparr>phashClusterId := cluster_id (cls ! i)\<rparr>)"
  using assms by (simp add: cluster_step_def Let_def)

lemma cluster_step_None:
  assumes "find_cluster c cls = None"
  shows "cluster_step cls c =
           (cls @ [\<lparr>cluster_id = cluster_label (length cls + 1),
                    rep = c\<lparr>phashClusterId := cluster_label (length cls + 1)\<rparr>,
                    items = [c\<lparr>phashClusterId := cluster_label (length cls + 1)\<rparr>],
                    best = c\<lparr>phashClusterId := cluster_label (length cls + 1)\<rparr>\<rparr>],
            c\<lparr>phashClusterId := cluster_label (length cls + 1)\<rparr>)"
  using assms by (simp add: cluster_step_def Let_def)


lemma cluster_step_ids:
  "map cluster_id (take (length cls) (fst (cluster_step cls c))) = map cluster_id cls"
proof (cases "find_cluster c cls")
  case None
  then show ?thesis by (simp add: cluster_step_None)
next
  case (Some i)
  then have "i < length cls" by (simp add: find_cluster_Some_iff)
  then show ?thesis
    by (simp add: cluster_step_Some [OF Some] map_update list_update_same_conv)
qed

lemma cluster_step_length:
  "length cls \<le> length (fst (cluster_step cls c))"
  by (cases "find_cluster c cls") (simp_all add: cluster_step_Some cluster_step_None)

lemma cluster_loop_length:
  "length cls \<le> length (fst (cluster_loop cls cs))"
proof (induction cs arbitrary: cls)
  case Nil
  then show ?case by simp
next
  case (Cons c cs)
  have "length cls \<le> length (fst (cluster_step cls c))" by (rule cluster_step_length)
  also have "\<dots> \<le> length (fst (cluster_loop (fst (cluster_step cls c)) cs))" by (rule Cons.IH)
  finally show ?case by (simp add: split_beta Let_def)
qed




lemma choose_better_score:
  "choose_better a b = (if score b \<le> score a then a else b)"
  by (simp add: choose_better_def score_def Let_def)

lemma score_le_iff:
  "score b \<le> score a \<longleftrightarrow>
     bytes b < bytes a \<or> (bytes b = bytes a \<and> width b * height b \<le> width a * height a)"
  by (auto simp: score_def less_eq_prod_def)

lemma score_update [simp]: "score (c\<lparr>phashClusterId := l\<rparr>) = score c"
  by (simp add: score_def)

lemma map_update_same:
  "i < length xs \<Longrightarrow> f y = f (xs ! i) \<Longrightarrow> map f (xs[i := y]) = map f xs"
  by (simp add: map_update list_update_same_conv)

lemma labelled_step:
  assumes "labelled cls"
  shows "labelled (fst (cluster_step cls c))"
proof (cases "find_cluster c cls")
  case None
  with assms show ?thesis
    by (simp add: cluster_step_None labelled_def)
next
  case (Some i)
  then have i: "i < length cls" by (simp add: find_cluster_Some_iff)
  have "map cluster_id (fst (cluster_step cls c)) = map cluster_id cls"
    by (simp add: cluster_step_Some [OF Some] map_update_same [OF i])
  moreover have "length (fst (cluster_step cls c)) = length cls"
    by (simp add: cluster_step_Some [OF Some])
  ultimately show ?thesis using assms by (simp add: labelled_def)
qed


lemma cluster_step_hashes:
  "map (\<lambda>cl. phash (rep cl)) (fst (cluster_step cls c)) =
     (case find_cluster c cls of
        Some i \<Rightarrow> map (\<lambda>cl. phash (rep cl)) cls
      | None \<Rightarrow> map (\<lambda>cl. phash (rep cl)) cls @ [phash c])"
proof (cases "find_cluster c cls")
  case None
  then show ?thesis by (simp add: cluster_step_None)
next
  case (Some i)
  then have "i < length cls" by (simp add: find_cluster_Some_iff)
  then show ?thesis
    by (simp add: cluster_step_Some [OF Some] Some map_update list_update_same_conv)
qed


lemma cluster_loop_representatives:
  "map (\<lambda>cl. phash (rep cl)) (fst (cluster_loop cls cs)) =
     spec_representatives (map (\<lambda>cl. phash (rep cl)) cls) (map phash cs)"
proof (induction cs arbitrary: cls)
  case Nil
  then show ?case by simp
next
  case (Cons c cs)
  show ?case
    using Cons.IH [of "fst (cluster_step cls c)"]
    by (cases "find_cluster c cls")
       (simp_all add: split_beta Let_def cluster_step_hashes find_cluster_first_within [symmetric])
qed

lemma labelled_Nil: "labelled []"
  by (simp add: labelled_def)

subsection \<open>What the loop maintains\<close>

lemma cluster_ok_new:
  "cluster_ok \<lparr>cluster_id = l, rep = c\<lparr>phashClusterId := l\<rparr>,
               items = [c\<lparr>phashClusterId := l\<rparr>], best = c\<lparr>phashClusterId := l\<rparr>\<rparr>"
  by (simp add: cluster_ok_def)

lemma cluster_ok_join:
  assumes "cluster_ok cl"
  shows "cluster_ok (cl\<lparr>items := items cl @ [c\<lparr>phashClusterId := cluster_id cl\<rparr>],
                         best := choose_better (best cl) (c\<lparr>phashClusterId := cluster_id cl\<rparr>)\<rparr>)"
proof -
  let ?c = "c\<lparr>phashClusterId := cluster_id cl\<rparr>"
  from assms have ne: "items cl \<noteq> []" and r: "rep cl = hd (items cl)"
    and b: "best cl \<in> set (items cl)"
    and ids: "\<And>m. m \<in> set (items cl) \<Longrightarrow> phashClusterId m = cluster_id cl"
    and mx: "\<And>m. m \<in> set (items cl) \<Longrightarrow> score m \<le> score (best cl)"
    by (simp_all add: cluster_ok_def list_all_iff)
  show ?thesis
  proof (cases "score ?c \<le> score (best cl)")
    case True
    then have cb: "choose_better (best cl) ?c = best cl" by (simp add: choose_better_score)
    show ?thesis
      unfolding cluster_ok_def cb list_all_iff
      using ne r b ids mx True by simp
  next
    case False
    then have cb: "choose_better (best cl) ?c = ?c" by (simp add: choose_better_score)
    from False have lt: "score (best cl) \<le> score ?c" by (simp add: linorder_not_le less_imp_le)
    have mx': "\<And>m. m \<in> set (items cl) \<Longrightarrow> score m \<le> score ?c"
      using mx lt order_trans by blast
    show ?thesis
      unfolding cluster_ok_def cb list_all_iff
      using ne r ids mx' by simp
  qed
qed

lemma cluster_ok_step:
  assumes "list_all cluster_ok cls"
  shows "list_all cluster_ok (fst (cluster_step cls c))"
proof (cases "find_cluster c cls")
  case None
  with assms show ?thesis
    by (simp add: cluster_step_None cluster_ok_new)
next
  case (Some i)
  then have i: "i < length cls" by (simp add: find_cluster_Some_iff)
  with assms have ok: "cluster_ok (cls ! i)" by (simp add: list_all_length)
  let ?new = "(cls ! i)\<lparr>items := items (cls ! i) @ [c\<lparr>phashClusterId := cluster_id (cls ! i)\<rparr>],
                 best := choose_better (best (cls ! i)) (c\<lparr>phashClusterId := cluster_id (cls ! i)\<rparr>)\<rparr>"
  have new: "cluster_ok ?new" using ok by (rule cluster_ok_join)
  have "list_all cluster_ok (cls[i := ?new])"
    unfolding list_all_length
  proof (intro allI impI)
    fix k assume "k < length (cls[i := ?new])"
    then have k: "k < length cls" by simp
    show "cluster_ok (cls[i := ?new] ! k)"
    proof (cases "k = i")
      case True
      with i new show ?thesis by simp
    next
      case False
      with k assms show ?thesis by (simp add: list_all_length)
    qed
  qed
  then show ?thesis
    by (simp only: cluster_step_Some [OF Some] fst_conv)
qed

lemma cluster_ok_loop:
  assumes "list_all cluster_ok cls"
  shows "list_all cluster_ok (fst (cluster_loop cls cs))"
  using assms
proof (induction cs arbitrary: cls)
  case Nil
  then show ?case by simp
next
  case (Cons c cs)
  from Cons.prems have "list_all cluster_ok (fst (cluster_step cls c))"
    by (rule cluster_ok_step)
  then have "list_all cluster_ok (fst (cluster_loop (fst (cluster_step cls c)) cs))"
    by (rule Cons.IH)
  then show ?case by (simp add: split_beta Let_def)
qed

lemma cluster_candidates_best:
  "cluster_candidates cs = map best (fst (cluster_loop [] cs))"
proof -
  have ok: "list_all cluster_ok (fst (cluster_loop [] cs))"
    by (rule cluster_ok_loop) simp
  have "\<And>cl. cl \<in> set (fst (cluster_loop [] cs)) \<Longrightarrow> (best cl)\<lparr>phashClusterId := cluster_id cl\<rparr> = best cl"
  proof -
    fix cl assume "cl \<in> set (fst (cluster_loop [] cs))"
    with ok have "cluster_ok cl" by (simp add: list_all_iff)
    then have "phashClusterId (best cl) = cluster_id cl"
      by (simp add: cluster_ok_def list_all_iff)
    then show "(best cl)\<lparr>phashClusterId := cluster_id cl\<rparr> = best cl" by simp
  qed
  then show ?thesis by (simp add: cluster_candidates_def)
qed

subsection \<open>The specification's example, evaluated\<close>

lemma example_candidates:
  "cluster_candidates [example_small, example_large] = [example_large\<lparr>phashClusterId := ''cluster-001''\<rparr>]"
  "cluster_candidates [example_large, example_small] = [example_large\<lparr>phashClusterId := ''cluster-001''\<rparr>]"
  by code_simp+

lemma example_first_cluster:
  "fst (cluster_loop [] [example_small]) =
     [\<lparr>cluster_id = ''cluster-001'', rep = example_small\<lparr>phashClusterId := ''cluster-001''\<rparr>,
       items = [example_small\<lparr>phashClusterId := ''cluster-001''\<rparr>],
       best = example_small\<lparr>phashClusterId := ''cluster-001''\<rparr>\<rparr>]"
  by code_simp

lemma example_clusters:
  "fst (cluster_loop [] [example_small, example_large]) =
     [\<lparr>cluster_id = ''cluster-001'', rep = example_small\<lparr>phashClusterId := ''cluster-001''\<rparr>,
       items = [example_small\<lparr>phashClusterId := ''cluster-001''\<rparr>,
                example_large\<lparr>phashClusterId := ''cluster-001''\<rparr>],
       best = example_large\<lparr>phashClusterId := ''cluster-001''\<rparr>\<rparr>]"
  by code_simp

lemma example_distance:
  "hamming_distance_hex (phash example_large) (phash example_small) = 1"
  by code_simp

subsection \<open>Sequential clustering\<close>



subsection \<open>The kept representative\<close>

text \<open>
  Claim C2. \<^const>\<open>choose_better\<close> decides lexicographically on (byte size, width times
  height): the first argument is kept unless the second has more bytes, or as many bytes
  and a larger pixel area. When a candidate joins a cluster, the cluster's kept member
  becomes the better of the kept member and the newcomer; the list that
  \<^const>\<open>cluster_candidates\<close> returns holds the kept member of every cluster, and that
  member is one of the cluster's members whose (bytes, area) pair no other member
  exceeds. For the members (50000, 900 x 600) and (80000, 640 x 480) the 80000-byte member
  is kept, in either input order.
\<close>

theorem representative_selection:
  "choose_better a b =
     (if bytes b < bytes a \<or> (bytes b = bytes a \<and> width b * height b \<le> width a * height a)
      then a else b)
   \<and> (find_cluster c cls = Some i \<longrightarrow>
        best (fst (cluster_step cls c) ! i) =
          choose_better (best (cls ! i)) (snd (cluster_step cls c)))
   \<and> cluster_candidates cs = map best (fst (cluster_loop [] cs))
   \<and> (\<forall>cl \<in> set (fst (cluster_loop [] cs)).
        best cl \<in> set (items cl)
        \<and> (\<forall>m \<in> set (items cl).
              bytes m < bytes (best cl)
              \<or> (bytes m = bytes (best cl)
                  \<and> width m * height m \<le> width (best cl) * height (best cl))))
   \<and> cluster_candidates [example_small, example_large] =
        [example_large\<lparr>phashClusterId := ''cluster-001''\<rparr>]
   \<and> cluster_candidates [example_large, example_small] =
        [example_large\<lparr>phashClusterId := ''cluster-001''\<rparr>]"
proof -
  have lex: "choose_better a b =
     (if bytes b < bytes a \<or> (bytes b = bytes a \<and> width b * height b \<le> width a * height a)
      then a else b)"
    by (simp add: choose_better_score score_le_iff)
  have step: "find_cluster c cls = Some i \<longrightarrow>
        best (fst (cluster_step cls c) ! i) =
          choose_better (best (cls ! i)) (snd (cluster_step cls c))"
  proof
    assume f: "find_cluster c cls = Some i"
    then have "i < length cls" by (simp add: find_cluster_Some_iff)
    then show "best (fst (cluster_step cls c) ! i) =
          choose_better (best (cls ! i)) (snd (cluster_step cls c))"
      by (simp add: cluster_step_Some [OF f])
  qed
  have ok: "list_all cluster_ok (fst (cluster_loop [] cs))"
    by (rule cluster_ok_loop) simp
  have mx: "\<forall>cl \<in> set (fst (cluster_loop [] cs)).
        best cl \<in> set (items cl)
        \<and> (\<forall>m \<in> set (items cl).
              bytes m < bytes (best cl)
              \<or> (bytes m = bytes (best cl)
                  \<and> width m * height m \<le> width (best cl) * height (best cl)))"
    using ok by (simp add: list_all_iff cluster_ok_def score_le_iff)
  from lex step cluster_candidates_best [of cs] mx example_candidates show ?thesis
    by blast
qed

theorem representative_selection_witness:
  "choose_better example_small example_large = example_large
   \<and> find_cluster example_large (fst (cluster_loop [] [example_small])) = Some 0
   \<and> best (fst (cluster_step (fst (cluster_loop [] [example_small])) example_large) ! 0) =
        example_large\<lparr>phashClusterId := ''cluster-001''\<rparr>
   \<and> set (fst (cluster_loop [] [example_small, example_large])) \<noteq> {}
   \<and> best (hd (fst (cluster_loop [] [example_small, example_large]))) =
        example_large\<lparr>phashClusterId := ''cluster-001''\<rparr>
   \<and> bytes (hd (items (hd (fst (cluster_loop [] [example_small, example_large])))))
        < bytes (best (hd (fst (cluster_loop [] [example_small, example_large]))))"
proof -
  let ?cls = "fst (cluster_loop [] [example_small])"
  note T = representative_selection
    [of example_small example_large example_large ?cls 0 "[example_small, example_large]"]
  have found: "find_cluster example_large ?cls = Some 0"
    by code_simp
  have sizes: "bytes example_small < bytes example_large"
    by (simp add: example_small_def example_large_def)
  from T sizes have a: "choose_better example_small example_large = example_large"
    by simp
  from T found have "best (fst (cluster_step ?cls example_large) ! 0) =
      choose_better (best (?cls ! 0)) (snd (cluster_step ?cls example_large))"
    by blast
  also have "\<dots> = example_large\<lparr>phashClusterId := ''cluster-001''\<rparr>"
    by code_simp
  finally have b: "best (fst (cluster_step ?cls example_large) ! 0) =
      example_large\<lparr>phashClusterId := ''cluster-001''\<rparr>" .
  have c: "set (fst (cluster_loop [] [example_small, example_large])) \<noteq> {}"
    unfolding example_clusters by simp
  have d: "best (hd (fst (cluster_loop [] [example_small, example_large]))) =
        example_large\<lparr>phashClusterId := ''cluster-001''\<rparr>"
    unfolding example_clusters by simp
  have e: "bytes (hd (items (hd (fst (cluster_loop [] [example_small, example_large])))))
        < bytes (best (hd (fst (cluster_loop [] [example_small, example_large]))))"
    unfolding example_clusters using sizes by simp
  from a found b c d e show ?thesis by blast
qed

section \<open>Properties of the hashes\<close>

lemma compute_phash_fallback_tag:
  "startswith (compute_phash None img) ''ahash-''"
  by (simp add: compute_phash_def startswith_def Let_def)

lemma hex_string_not_tagged:
  assumes "is_hex_string p"
  shows "\<not> startswith p ''ahash-''"
proof
  assume "startswith p ''ahash-''"
  then have "take (length ''ahash-'') p = ''ahash-''" by (simp only: startswith_def)
  then have "set ''ahash-'' \<subseteq> set p" by (metis set_take_subset)
  then have "CHR ''h'' \<in> set p" by auto
  with assms have "hex_val (CHR ''h'') \<noteq> None"
    by (simp add: is_hex_string_def list_all_iff)
  then show False by (simp add: hex_val_def)
qed

lemma tagged_distance:
  assumes "startswith a ''ahash-''" and "\<not> startswith b ''ahash-''"
  shows "hamming_distance_hex a b = 64" and "hamming_distance_hex b a = 64"
proof -
  from assms have "a \<noteq> b" by auto
  with assms show "hamming_distance_hex a b = 64" and "hamming_distance_hex b a = 64"
    by (auto simp: hamming_distance_hex_def)
qed

lemma find_cluster_None_all:
  assumes "list_all (\<lambda>cl. \<not> within_threshold c cl) cls"
  shows "find_cluster c cls = None"
  using assms by (simp add: find_cluster_None_iff list_all_iff)

text \<open>
  Claim C4. A fingerprint made by the fallback (\<^const>\<open>compute_phash\<close> without the
  library) and one made by the primary algorithm (a string of hexadecimal digits) are at
  distance 64 in either order, which is above the threshold; so a candidate with a fallback
  hash finds no cluster among clusters whose representatives carry primary hashes, and a
  candidate with a primary hash finds none among clusters whose representatives carry
  fallback hashes.
\<close>

theorem cross_algorithm_never_matches:
  "is_hex_string p \<longrightarrow>
     hamming_distance_hex (compute_phash None img) p = 64
     \<and> hamming_distance_hex p (compute_phash None img) = 64
     \<and> PHASH_DISTANCE_THRESHOLD < 64
     \<and> (phash c = compute_phash None img
          \<and> list_all (\<lambda>cl. is_hex_string (phash (rep cl))) cls
          \<longrightarrow> find_cluster c cls = None)
     \<and> (phash d = p
          \<and> list_all (\<lambda>cl. \<exists>im. phash (rep cl) = compute_phash None im) cls
          \<longrightarrow> find_cluster d cls = None)"
proof
  assume hex: "is_hex_string p"
  let ?a = "compute_phash None img"
  have tag: "startswith ?a ''ahash-''" by (rule compute_phash_fallback_tag)
  have ntag: "\<not> startswith p ''ahash-''" using hex by (rule hex_string_not_tagged)
  have d1: "hamming_distance_hex ?a p = 64" and d2: "hamming_distance_hex p ?a = 64"
    using tagged_distance [OF tag ntag] by simp_all
  have thr: "PHASH_DISTANCE_THRESHOLD < 64" by (simp add: PHASH_DISTANCE_THRESHOLD_def)
  have j1: "phash c = ?a \<and> list_all (\<lambda>cl. is_hex_string (phash (rep cl))) cls
          \<longrightarrow> find_cluster c cls = None"
  proof
    assume h: "phash c = ?a \<and> list_all (\<lambda>cl. is_hex_string (phash (rep cl))) cls"
    have "list_all (\<lambda>cl. \<not> within_threshold c cl) cls"
      unfolding list_all_iff
    proof
      fix cl assume "cl \<in> set cls"
      with h have "is_hex_string (phash (rep cl))" by (simp add: list_all_iff)
      then have "\<not> startswith (phash (rep cl)) ''ahash-''" by (rule hex_string_not_tagged)
      with tag h have "hamming_distance_hex (phash c) (phash (rep cl)) = 64"
        by (simp add: tagged_distance)
      then show "\<not> within_threshold c cl"
        by (simp add: within_threshold_def PHASH_DISTANCE_THRESHOLD_def)
    qed
    then show "find_cluster c cls = None" by (rule find_cluster_None_all)
  qed
  have j2: "phash d = p \<and> list_all (\<lambda>cl. \<exists>im. phash (rep cl) = compute_phash None im) cls
          \<longrightarrow> find_cluster d cls = None"
  proof
    assume h: "phash d = p \<and> list_all (\<lambda>cl. \<exists>im. phash (rep cl) = compute_phash None im) cls"
    have "list_all (\<lambda>cl. \<not> within_threshold d cl) cls"
      unfolding list_all_iff
    proof
      fix cl assume "cl \<in> set cls"
      with h obtain im where "phash (rep cl) = compute_phash None im"
        by (auto simp: list_all_iff)
      then have "startswith (phash (rep cl)) ''ahash-''"
        by (simp add: compute_phash_fallback_tag)
      with ntag h have "hamming_distance_hex (phash d) (phash (rep cl)) = 64"
        by (simp add: tagged_distance)
      then show "\<not> within_threshold d cl"
        by (simp add: within_threshold_def PHASH_DISTANCE_THRESHOLD_def)
    qed
    then show "find_cluster d cls = None" by (rule find_cluster_None_all)
  qed
  from d1 d2 thr j1 j2 show "hamming_distance_hex ?a p = 64
     \<and> hamming_distance_hex p ?a = 64
     \<and> PHASH_DISTANCE_THRESHOLD < 64
     \<and> (phash c = ?a \<and> list_all (\<lambda>cl. is_hex_string (phash (rep cl))) cls
          \<longrightarrow> find_cluster c cls = None)
     \<and> (phash d = p \<and> list_all (\<lambda>cl. \<exists>im. phash (rep cl) = compute_phash None im) cls
          \<longrightarrow> find_cluster d cls = None)"
    by blast
qed

lemma cluster_loop_single:
  "fst (cluster_loop [] [x]) =
     [\<lparr>cluster_id = cluster_label 1, rep = x\<lparr>phashClusterId := cluster_label 1\<rparr>,
       items = [x\<lparr>phashClusterId := cluster_label 1\<rparr>],
       best = x\<lparr>phashClusterId := cluster_label 1\<rparr>\<rparr>]"
  by (simp add: cluster_step_def Let_def)

lemma example_image_hash:
  "compute_phash None example_image = ''ahash-ffffffff00000000''"
  by code_simp

theorem cross_algorithm_never_matches_witness:
  "is_hex_string (phash example_small)
   \<and> hamming_distance_hex (compute_phash None example_image) (phash example_small) = 64
   \<and> hamming_distance_hex (phash example_small) (compute_phash None example_image) = 64
   \<and> find_cluster (example_small\<lparr>phash := compute_phash None example_image\<rparr>)
         (fst (cluster_loop [] [example_small])) = None
   \<and> find_cluster example_small
         (fst (cluster_loop [] [example_small\<lparr>phash := compute_phash None example_image\<rparr>])) = None"
proof -
  let ?f = "example_small\<lparr>phash := compute_phash None example_image\<rparr>"
  have hex: "is_hex_string (phash example_small)"
    by code_simp
  note T1 = cross_algorithm_never_matches
    [of "phash example_small" example_image ?f "fst (cluster_loop [] [example_small])"
        example_small]
  note T2 = cross_algorithm_never_matches
    [of "phash example_small" example_image ?f "fst (cluster_loop [] [?f])" example_small]
  have h1: "list_all (\<lambda>cl. is_hex_string (phash (rep cl))) (fst (cluster_loop [] [example_small]))"
    unfolding cluster_loop_single using hex by simp
  have h2: "list_all (\<lambda>cl. \<exists>im. phash (rep cl) = compute_phash None im) (fst (cluster_loop [] [?f]))"
    unfolding cluster_loop_single by auto
  have h3: "phash ?f = compute_phash None example_image" by simp
  from T1 T2 hex h1 h2 h3 show ?thesis by blast
qed

section \<open>Properties of the manifest\<close>

subsection \<open>Labels of at most three digits compare as their numbers do\<close>

lemma char_of_48: "char_of (48 :: nat) = CHR ''0''"
  by code_simp

lemma dec_digits_small:
  assumes "n < 1000"
  shows "format_03d n = [digit_char (n div 100), digit_char (n div 10 mod 10), digit_char (n mod 10)]"
proof -
  consider "n < 10" | "10 \<le> n" "n < 100" | "100 \<le> n"
    by linarith
  then show ?thesis
  proof cases
    case 1
    then have "dec_digits n = [digit_char n]" by (simp add: dec_digits.simps)
    with 1 show ?thesis
      by (simp add: format_03d_def digit_char_def numeral_3_eq_3 char_of_48)
  next
    case 2
    then have a: "n div 10 < 10" by simp
    from 2 have "dec_digits n = dec_digits (n div 10) @ [digit_char (n mod 10)]"
      by (subst dec_digits.simps) simp
    also from a have "dec_digits (n div 10) = [digit_char (n div 10)]"
      by (simp add: dec_digits.simps)
    finally have "dec_digits n = [digit_char (n div 10), digit_char (n mod 10)]" by simp
    moreover from 2 have "n div 100 = 0" by simp
    ultimately show ?thesis using a
      by (simp add: format_03d_def digit_char_def char_of_48)
  next
    case 3
    with assms have a: "\<not> n < 10" and b: "\<not> n div 10 < 10" and c: "n div 10 div 10 < 10"
      by simp_all
    have "dec_digits n = dec_digits (n div 10) @ [digit_char (n mod 10)]"
      using a by (subst dec_digits.simps) simp
    also have "dec_digits (n div 10) = dec_digits (n div 10 div 10) @ [digit_char (n div 10 mod 10)]"
      using b by (subst dec_digits.simps) simp
    also have "dec_digits (n div 10 div 10) = [digit_char (n div 10 div 10)]"
      using c by (simp add: dec_digits.simps)
    finally have "dec_digits n = [digit_char (n div 100), digit_char (n div 10 mod 10), digit_char (n mod 10)]"
      by (simp add: div_mult2_eq [symmetric])
    then show ?thesis by (simp add: format_03d_def)
  qed
qed

lemma digit_char_less:
  "d < 10 \<Longrightarrow> e < 10 \<Longrightarrow> digit_char d < digit_char e \<longleftrightarrow> d < e"
  by (simp add: digit_char_def less_char_def)

lemma digit_char_eq:
  "d < 10 \<Longrightarrow> e < 10 \<Longrightarrow> digit_char d = digit_char e \<longleftrightarrow> d = e"
proof -
  assume d: "d < 10" and e: "e < 10"
  have "digit_char d = digit_char e \<Longrightarrow> d = e"
  proof -
    assume "digit_char d = digit_char e"
    then have "(of_char (digit_char d) :: nat) = of_char (digit_char e)" by simp
    with d e show "d = e" by (simp add: digit_char_def)
  qed
  then show ?thesis by auto
qed

lemma digits_expand:
  "(n :: nat) = 100 * (n div 100) + 10 * (n div 10 mod 10) + n mod 10"
proof -
  have "n = 10 * (n div 10) + n mod 10" by simp
  moreover have "n div 10 = 10 * (n div 10 div 10) + n div 10 mod 10" by simp
  moreover have "n div 10 div 10 = n div 100" by (simp add: div_mult2_eq [symmetric])
  ultimately show ?thesis by linarith
qed

lemma digits_lex:
  fixes x y z x' y' z' :: nat
  assumes "100 * x + 10 * y + z < 100 * x' + 10 * y' + z'"
    and "y < 10" "z < 10" "y' < 10" "z' < 10"
  shows "x < x' \<or> (x = x' \<and> (y < y' \<or> (y = y' \<and> z < z')))"
  using assms by linarith

lemma format_03d_mono:
  assumes "a < b" and "b < 1000"
  shows "format_03d a < format_03d b"
proof -
  from assms have a: "a < 1000" by simp
  have da: "a div 100 < 10" "a div 10 mod 10 < 10" "a mod 10 < 10" using a by simp_all
  have db: "b div 100 < 10" "b div 10 mod 10 < 10" "b mod 10 < 10" using assms by simp_all
  have "100 * (a div 100) + 10 * (a div 10 mod 10) + a mod 10
        < 100 * (b div 100) + 10 * (b div 10 mod 10) + b mod 10"
    using assms(1) digits_expand [of a] digits_expand [of b] by simp
  then have lex: "a div 100 < b div 100
        \<or> (a div 100 = b div 100 \<and> (a div 10 mod 10 < b div 10 mod 10
             \<or> (a div 10 mod 10 = b div 10 mod 10 \<and> a mod 10 < b mod 10)))"
    using da(2,3) db(2,3) by (rule digits_lex)
  have "[digit_char (a div 100), digit_char (a div 10 mod 10), digit_char (a mod 10)]
        < [digit_char (b div 100), digit_char (b div 10 mod 10), digit_char (b mod 10)]"
    using lex by (simp add: digit_char_less digit_char_eq da db)
  then show ?thesis
    by (simp only: dec_digits_small [OF a] dec_digits_small [OF assms(2)])
qed

lemma append_less_append:
  "(p @ x < p @ y) = (x < (y :: 'a :: linorder list))"
  by (induction p) simp_all

lemma cluster_label_mono:
  "a < b \<Longrightarrow> b < 1000 \<Longrightarrow> cluster_label a < cluster_label b"
  unfolding cluster_label_def by (simp only: append_less_append format_03d_mono)

subsection \<open>The labels that clustering hands out\<close>

lemma labelled_loop:
  assumes "labelled cls"
  shows "labelled (fst (cluster_loop cls cs))"
  using assms
proof (induction cs arbitrary: cls)
  case Nil
  then show ?case by simp
next
  case (Cons c cs)
  from Cons.prems have "labelled (fst (cluster_step cls c))" by (rule labelled_step)
  then have "labelled (fst (cluster_loop (fst (cluster_step cls c)) cs))" by (rule Cons.IH)
  then show ?case by (simp add: split_beta Let_def)
qed

lemma cluster_candidates_labels:
  "map phashClusterId (cluster_candidates cs) =
     map (\<lambda>k. cluster_label (k + 1)) [0..<length (cluster_candidates cs)]"
proof -
  let ?cls = "fst (cluster_loop [] cs)"
  have ok: "list_all cluster_ok ?cls" by (rule cluster_ok_loop) simp
  have lab: "labelled ?cls" using labelled_Nil by (rule labelled_loop)
  have "map phashClusterId (map best ?cls) = map cluster_id ?cls"
  proof (simp, intro ballI)
    fix cl assume "cl \<in> set ?cls"
    with ok have "cluster_ok cl" by (simp add: list_all_iff)
    then show "phashClusterId (best cl) = cluster_id cl"
      by (simp add: cluster_ok_def list_all_iff)
  qed
  also have "\<dots> = map (\<lambda>k. cluster_label (k + 1)) [0..<length ?cls]"
    using lab by (simp add: labelled_def)
  finally show ?thesis by (simp add: cluster_candidates_best)
qed

lemma manifest_sorted_explicit:
  assumes "i < j" and "j < length (manifest_order d)"
  shows "phashClusterId (manifest_order d ! i) < phashClusterId (manifest_order d ! j)
         \<or> (phashClusterId (manifest_order d ! i) = phashClusterId (manifest_order d ! j)
             \<and> bytes (manifest_order d ! j) \<le> bytes (manifest_order d ! i))"
proof -
  let ?M = "manifest_order d"
  have "sorted (map manifest_key ?M)" by (simp add: manifest_order_def)
  moreover have "i \<le> j" "j < length (map manifest_key ?M)" using assms by simp_all
  ultimately have "map manifest_key ?M ! i \<le> map manifest_key ?M ! j"
    by (rule sorted_nth_mono)
  then have "manifest_key (?M ! i) \<le> manifest_key (?M ! j)" using assms by simp
  then show ?thesis by (auto simp: manifest_key_def)
qed

lemma creation_order_sorted:
  assumes "length (cluster_candidates cs) \<le> 999"
  shows "sorted (map manifest_key (cluster_candidates cs))"
proof -
  let ?D = "cluster_candidates cs"
  have lab: "\<And>k. k < length ?D \<Longrightarrow> phashClusterId (?D ! k) = cluster_label (k + 1)"
  proof -
    fix k assume k: "k < length ?D"
    then have "phashClusterId (?D ! k) = map phashClusterId ?D ! k" by simp
    also have "\<dots> = map (\<lambda>k. cluster_label (k + 1)) [0..<length ?D] ! k"
      by (simp only: cluster_candidates_labels [symmetric])
    also have "\<dots> = cluster_label (k + 1)" using k by simp
    finally show "phashClusterId (?D ! k) = cluster_label (k + 1)" .
  qed
  show ?thesis
    unfolding sorted_iff_nth_mono_less
  proof (intro allI impI)
    fix i j assume ij: "i < j" and j: "j < length (map manifest_key ?D)"
    then have j': "j < length ?D" and i': "i < length ?D" by simp_all
    from ij j' assms have "cluster_label (i + 1) < cluster_label (j + 1)"
      by (intro cluster_label_mono) simp_all
    then have "phashClusterId (?D ! i) < phashClusterId (?D ! j)"
      by (simp only: lab [OF i'] lab [OF j'])
    then show "map manifest_key ?D ! i \<le> map manifest_key ?D ! j"
      using i' j' by (simp add: manifest_key_def)
  qed
qed

lemma three_labels:
  "map phashClusterId
     (manifest_order [with_label ''cluster-001'', with_label ''cluster-003'', with_label ''cluster-002''])
   = [''cluster-001'', ''cluster-002'', ''cluster-003'']"
  by code_simp

subsection \<open>A thousand clusters\<close>

lemma first_within_tagged:
  assumes "startswith h ''ahash-''" and "h \<notin> set reps"
  shows "first_within h reps = None"
  using assms(2)
proof (induction reps)
  case Nil
  then show ?case by simp
next
  case (Cons r rs)
  then have "h \<noteq> r" by auto
  with assms(1) have "hamming_distance_hex h r = 64"
    by (simp add: hamming_distance_hex_def)
  with Cons show ?case by simp
qed

lemma spec_representatives_distinct:
  assumes "list_all (\<lambda>h. startswith h ''ahash-'') hs" and "distinct (reps @ hs)"
  shows "spec_representatives reps hs = reps @ hs"
  using assms
proof (induction hs arbitrary: reps)
  case Nil
  then show ?case by simp
next
  case (Cons h hs)
  from Cons.prems have tag: "startswith h ''ahash-''" and new: "h \<notin> set reps"
    by auto
  then have "first_within h reps = None" by (rule first_within_tagged)
  moreover have "spec_representatives (reps @ [h]) hs = (reps @ [h]) @ hs"
    using Cons.prems by (intro Cons.IH) auto
  ultimately show ?case by simp
qed

lemma far_hash_inj:
  assumes "a < 1000" and "b < 1000" and "a \<noteq> b"
  shows "phash (far_candidate a) \<noteq> phash (far_candidate b)"
proof -
  have "format_03d a \<noteq> format_03d b"
  proof (cases "a < b")
    case True
    with assms have "format_03d a < format_03d b" by (intro format_03d_mono)
    then show ?thesis by simp
  next
    case False
    with assms have "b < a" by simp
    with assms have "format_03d b < format_03d a" by (intro format_03d_mono)
    then show ?thesis by simp
  qed
  then show ?thesis by (simp add: far_candidate_def)
qed

lemma thousand_hashes_distinct:
  "distinct (map phash thousand_candidates)"
proof -
  have "inj_on (\<lambda>k. phash (far_candidate k)) (set [0..<1000])"
    by (intro inj_onI) (use far_hash_inj in force)
  then have "distinct (map (\<lambda>k. phash (far_candidate k)) [0..<1000])"
    by (simp add: distinct_map)
  then show ?thesis by (simp add: thousand_candidates_def comp_def)
qed

lemma thousand_hashes_tagged:
  "list_all (\<lambda>h. startswith h ''ahash-'') (map phash thousand_candidates)"
  by (simp add: thousand_candidates_def list_all_iff far_candidate_def startswith_def)

lemma thousand_clusters:
  "length (cluster_candidates thousand_candidates) = 1000"
proof -
  have "length (cluster_candidates thousand_candidates)
        = length (map (\<lambda>cl. phash (rep cl)) (fst (cluster_loop [] thousand_candidates)))"
    by (simp add: cluster_candidates_def)
  also have "\<dots> = length (spec_representatives [] (map phash thousand_candidates))"
    using cluster_loop_representatives [of "[]" thousand_candidates] by simp
  also have "\<dots> = length (map phash thousand_candidates)"
    using spec_representatives_distinct [OF thousand_hashes_tagged, of "[]"]
      thousand_hashes_distinct by simp
  also have "\<dots> = 1000" by (simp add: thousand_candidates_def)
  finally show ?thesis .
qed

lemma thousand_label:
  assumes "k < 1000"
  shows "phashClusterId (cluster_candidates thousand_candidates ! k) = cluster_label (k + 1)"
proof -
  let ?D = "cluster_candidates thousand_candidates"
  from assms have k: "k < length ?D" by (simp add: thousand_clusters)
  then have "phashClusterId (?D ! k) = map phashClusterId ?D ! k" by simp
  also have "\<dots> = map (\<lambda>k. cluster_label (k + 1)) [0..<length ?D] ! k"
    by (simp only: cluster_candidates_labels [symmetric])
  also have "\<dots> = cluster_label (k + 1)" using k by simp
  finally show ?thesis .
qed

lemma label_101: "cluster_label 101 = ''cluster-101''"
  by code_simp

lemma label_1000: "cluster_label 1000 = ''cluster-1000''"
  by code_simp

lemma label_1000_less_101: "(''cluster-1000'' :: string) < ''cluster-101''"
  by code_simp

lemma key_not_le:
  "phashClusterId y = ''cluster-101'' \<Longrightarrow> phashClusterId x = ''cluster-1000''
   \<Longrightarrow> \<not> manifest_key y \<le> manifest_key x"
  using label_1000_less_101 by (simp add: manifest_key_def not_le not_less less_imp_le)

text \<open>
  With a thousand clusters the claim as the specification states it fails: labels are
  compared as strings, the thousandth label \<^verbatim>\<open>cluster-1000\<close> has four digits, and it
  sorts before \<^verbatim>\<open>cluster-101\<close>. The thousand candidates below form a thousand clusters,
  and the manifest is not in the order of their creation.
\<close>

theorem manifest_order_thousand_counterexample:
  "length (cluster_candidates thousand_candidates) = 1000
   \<and> phashClusterId (cluster_candidates thousand_candidates ! 100) = ''cluster-101''
   \<and> phashClusterId (cluster_candidates thousand_candidates ! 999) = ''cluster-1000''
   \<and> (\<exists>i j. i < j \<and> j < length (manifest_order (cluster_candidates thousand_candidates))
        \<and> phashClusterId (manifest_order (cluster_candidates thousand_candidates) ! i) = ''cluster-1000''
        \<and> phashClusterId (manifest_order (cluster_candidates thousand_candidates) ! j) = ''cluster-101'')
   \<and> manifest_order (cluster_candidates thousand_candidates) \<noteq> cluster_candidates thousand_candidates"
proof -
  let ?D = "cluster_candidates thousand_candidates"
  let ?M = "manifest_order ?D"
  have len: "length ?D = 1000" by (rule thousand_clusters)
  have y: "phashClusterId (?D ! 100) = ''cluster-101''"
    using thousand_label [of 100] label_101 by simp
  have x: "phashClusterId (?D ! 999) = ''cluster-1000''"
    using thousand_label [of 999] label_1000 by simp
  have srt: "sorted (map manifest_key ?M)" by (simp add: manifest_order_def)
  have "?D ! 999 \<in> set ?M" using len by (simp add: manifest_order_def)
  then obtain i where i: "i < length ?M" "?M ! i = ?D ! 999"
    by (auto simp: in_set_conv_nth)
  have "?D ! 100 \<in> set ?M" using len by (simp add: manifest_order_def)
  then obtain j where j: "j < length ?M" "?M ! j = ?D ! 100"
    by (auto simp: in_set_conv_nth)
  have "i < j"
  proof (rule ccontr)
    assume "\<not> i < j"
    then have "j \<le> i" by simp
    with srt i(1) have "map manifest_key ?M ! j \<le> map manifest_key ?M ! i"
      by (intro sorted_nth_mono) simp_all
    with i j have "manifest_key (?D ! 100) \<le> manifest_key (?D ! 999)" by simp
    with key_not_le [OF y x] show False by simp
  qed
  moreover have "phashClusterId (?M ! i) = ''cluster-1000''" using i(2) x by simp
  moreover have "phashClusterId (?M ! j) = ''cluster-101''" using j(2) y by simp
  ultimately have "i < j \<and> j < length ?M
        \<and> phashClusterId (?M ! i) = ''cluster-1000'' \<and> phashClusterId (?M ! j) = ''cluster-101''"
    using j(1) by simp
  then have ex: "\<exists>i j. i < j \<and> j < length ?M
        \<and> phashClusterId (?M ! i) = ''cluster-1000'' \<and> phashClusterId (?M ! j) = ''cluster-101''"
    by (intro exI)
  have neq: "?M \<noteq> ?D"
  proof
    assume eq: "?M = ?D"
    with srt have "sorted (map manifest_key ?D)" by simp
    then have "map manifest_key ?D ! 100 \<le> map manifest_key ?D ! 999"
      using len by (intro sorted_nth_mono) simp_all
    then have "manifest_key (?D ! 100) \<le> manifest_key (?D ! 999)" using len by simp
    with key_not_le [OF y x] show False by simp
  qed
  from len y x ex neq show ?thesis by blast
qed

text \<open>
  Claim C5, as amended. The manifest is a permutation of the deduplicated candidates in
  which an earlier entry has a smaller cluster label (as a string) than a later one, or the
  same label and at least as many bytes; candidates labelled \<^verbatim>\<open>cluster-001\<close>,
  \<^verbatim>\<open>cluster-003\<close>, \<^verbatim>\<open>cluster-002\<close> are written in the order 001, 002, 003. The
  candidates that clustering returns carry the labels of the numbers 1, 2, ... in the order
  in which their clusters were created, and when there are at most 999 of them the
  manifest keeps exactly that order.
\<close>

theorem manifest_ordering:
  "mset (manifest_order deduped) = mset deduped
   \<and> (i < j \<and> j < length (manifest_order deduped) \<longrightarrow>
        phashClusterId (manifest_order deduped ! i) < phashClusterId (manifest_order deduped ! j)
        \<or> (phashClusterId (manifest_order deduped ! i) = phashClusterId (manifest_order deduped ! j)
            \<and> bytes (manifest_order deduped ! j) \<le> bytes (manifest_order deduped ! i)))
   \<and> map phashClusterId
         (manifest_order [with_label ''cluster-001'', with_label ''cluster-003'',
                          with_label ''cluster-002''])
       = [''cluster-001'', ''cluster-002'', ''cluster-003'']
   \<and> map phashClusterId (cluster_candidates cs) =
        map (\<lambda>k. cluster_label (k + 1)) [0..<length (cluster_candidates cs)]
   \<and> (length (cluster_candidates cs) \<le> 999 \<longrightarrow>
        manifest_order (cluster_candidates cs) = cluster_candidates cs)"
proof -
  have perm: "mset (manifest_order deduped) = mset deduped"
    by (simp add: manifest_order_def)
  have keep: "length (cluster_candidates cs) \<le> 999 \<longrightarrow>
        manifest_order (cluster_candidates cs) = cluster_candidates cs"
    unfolding manifest_order_def
    by (intro impI sort_key_id_if_sorted creation_order_sorted)
  from perm manifest_sorted_explicit [of i j deduped] three_labels
    cluster_candidates_labels [of cs] keep
  show ?thesis by blast
qed

theorem manifest_ordering_witness:
  "(0 :: nat) < 1
   \<and> 1 < length (manifest_order [with_label ''cluster-003'', with_label ''cluster-002''])
   \<and> phashClusterId (manifest_order [with_label ''cluster-003'', with_label ''cluster-002''] ! 0)
       < phashClusterId (manifest_order [with_label ''cluster-003'', with_label ''cluster-002''] ! 1)
   \<and> length (cluster_candidates [example_small, example_large]) \<le> 999
   \<and> manifest_order (cluster_candidates [example_small, example_large]) =
        cluster_candidates [example_small, example_large]"
proof -
  let ?d = "[with_label ''cluster-003'', with_label ''cluster-002'']"
  note T = manifest_ordering [of ?d 0 1 "[example_small, example_large]"]
  have len: "1 < length (manifest_order ?d)" by (simp add: manifest_order_def)
  have ne: "phashClusterId (manifest_order ?d ! 0) \<noteq> phashClusterId (manifest_order ?d ! 1)"
    by code_simp
  have small: "length (cluster_candidates [example_small, example_large]) \<le> 999"
    unfolding example_candidates by simp
  from T len ne have a: "phashClusterId (manifest_order ?d ! 0) < phashClusterId (manifest_order ?d ! 1)"
    by simp
  from T small have b: "manifest_order (cluster_candidates [example_small, example_large]) =
        cluster_candidates [example_small, example_large]"
    by blast
  from len a small b show ?thesis by simp
qed

section \<open>Properties of the crawl\<close>

subsection \<open>What an iteration leaves unchanged\<close>










subsection \<open>Canonical page URLs\<close>








subsection \<open>The invariant of the loop\<close>

lemma page_html_None_iff:
  "page_html response = None \<longleftrightarrow>
     response = None
     \<or> (\<exists>r. response = Some r \<and> (\<not> ok r \<or> \<not> contains (content_type r) ''text/html''))"
  by (cases response) (auto simp: page_html_def)

lemma crawl_step_failed_fetch:
  assumes "queue s = (page_url, depth) # rest"
    and "page_url |\<notin>| visited_pages s" and "depth \<le> max_depth args" and "can_fetch env page_url"
    and "page_html (http_get env (length (requests s)) page_url) = None"
  shows "crawl_step env args base_hostname allowed s =
           s\<lparr>queue := rest, requests := requests s @ [page_url],
             fetched_pages := fetched_pages s @ [page_url],
             visited_pages := finsert page_url (visited_pages s)\<rparr>"
  using assms by (simp add: crawl_step_def Let_def polite_get_def)








subsection \<open>The page limit and failed fetches\<close>




text \<open>
  Claim C10. Let the page at the head of the queue be new, within the depth limit and
  allowed by the robots policy, and let its fetch give a network error, a status that is
  not OK, or a content type without \<^verbatim>\<open>text/html\<close>. Then the iteration makes that one
  request, puts the page into the visited set, which grows by one, and changes nothing
  else: no link enters the queue, no image is downloaded and no file is stored.
\<close>

theorem failed_fetch_is_visited:
  "queue s = (page_url, depth) # rest \<and> page_url |\<notin>| visited_pages s
   \<and> depth \<le> max_depth args \<and> can_fetch env page_url
   \<and> (http_get env (length (requests s)) page_url = None
        \<or> (\<exists>r. http_get env (length (requests s)) page_url = Some r
                \<and> (\<not> ok r \<or> \<not> contains (content_type r) ''text/html'')))
   \<longrightarrow>
     crawl_step env args base_hostname allowed s =
       s\<lparr>queue := rest, requests := requests s @ [page_url],
         fetched_pages := fetched_pages s @ [page_url],
         visited_pages := finsert page_url (visited_pages s)\<rparr>
     \<and> fcard (visited_pages (crawl_step env args base_hostname allowed s))
         = fcard (visited_pages s) + 1
     \<and> queue (crawl_step env args base_hostname allowed s) = rest
     \<and> downloaded_by_url (crawl_step env args base_hostname allowed s) = downloaded_by_url s
     \<and> files (crawl_step env args base_hostname allowed s) = files s"
proof
  assume h: "queue s = (page_url, depth) # rest \<and> page_url |\<notin>| visited_pages s
   \<and> depth \<le> max_depth args \<and> can_fetch env page_url
   \<and> (http_get env (length (requests s)) page_url = None
        \<or> (\<exists>r. http_get env (length (requests s)) page_url = Some r
                \<and> (\<not> ok r \<or> \<not> contains (content_type r) ''text/html'')))"
  then have none: "page_html (http_get env (length (requests s)) page_url) = None"
    by (simp only: page_html_None_iff)
  from h have q: "queue s = (page_url, depth) # rest" and v: "page_url |\<notin>| visited_pages s"
    and d: "depth \<le> max_depth args" and c: "can_fetch env page_url"
    by simp_all
  note st = crawl_step_failed_fetch [OF q v d c none, of base_hostname allowed]
  show "crawl_step env args base_hostname allowed s =
       s\<lparr>queue := rest, requests := requests s @ [page_url],
         fetched_pages := fetched_pages s @ [page_url],
         visited_pages := finsert page_url (visited_pages s)\<rparr>
     \<and> fcard (visited_pages (crawl_step env args base_hostname allowed s))
         = fcard (visited_pages s) + 1
     \<and> queue (crawl_step env args base_hostname allowed s) = rest
     \<and> downloaded_by_url (crawl_step env args base_hostname allowed s) = downloaded_by_url s
     \<and> files (crawl_step env args base_hostname allowed s) = files s"
    unfolding st using v by (simp add: fcard_finsert_disjoint)
qed

theorem failed_fetch_is_visited_witness:
  "queue (initial_state ''https://agsafastpitch.com'' []) = (''https://agsafastpitch.com/'', 0) # []
   \<and> ''https://agsafastpitch.com/'' |\<notin>| visited_pages (initial_state ''https://agsafastpitch.com'' [])
   \<and> 0 \<le> max_depth default_args
   \<and> can_fetch flaky_site ''https://agsafastpitch.com/''
   \<and> http_get flaky_site 0 ''https://agsafastpitch.com/'' = Some (error_response 503)
   \<and> \<not> ok (error_response 503)
   \<and> crawl_step flaky_site default_args ''agsafastpitch.com'' [''agsafastpitch.com'']
         (initial_state ''https://agsafastpitch.com'' [])
       = empty_state\<lparr>requests := [''https://agsafastpitch.com/''],
                     fetched_pages := [''https://agsafastpitch.com/''],
                     visited_pages := {|''https://agsafastpitch.com/''|}\<rparr>"
proof -
  let ?s = "initial_state ''https://agsafastpitch.com'' []"
  let ?p = "''https://agsafastpitch.com/''"
  have cp: "canonical_page ''https://agsafastpitch.com'' = ?p" by code_simp
  have q: "queue ?s = (?p, 0) # []" by (simp add: initial_state_def cp)
  have v: "?p |\<notin>| visited_pages ?s" by (simp add: initial_state_def)
  have d: "0 \<le> max_depth default_args" by (simp add: default_args_def)
  have c: "can_fetch flaky_site ?p" by (simp add: flaky_site_def)
  have r: "requests ?s = []" by (simp add: initial_state_def)
  have g: "http_get flaky_site 0 ?p = Some (error_response 503)" by (simp add: flaky_site_def)
  have o: "\<not> ok (error_response 503)" by (simp add: ok_def error_response_def)
  note T = failed_fetch_is_visited [of ?s ?p 0 "[]" default_args flaky_site
      "''agsafastpitch.com''" "[''agsafastpitch.com'']"]
  from T q v d c g o r have "crawl_step flaky_site default_args ''agsafastpitch.com'' [''agsafastpitch.com''] ?s =
       ?s\<lparr>queue := [], requests := requests ?s @ [?p],
         fetched_pages := fetched_pages ?s @ [?p],
         visited_pages := finsert ?p (visited_pages ?s)\<rparr>"
    by simp
  also have "\<dots> = empty_state\<lparr>requests := [?p], fetched_pages := [?p], visited_pages := {|?p|}\<rparr>"
    by (simp add: initial_state_def empty_state_def)
  finally show ?thesis using q v d c g o by simp
qed

subsection \<open>Where the program departs from its specification\<close>

lemma thumb_site_run:
  "main thumb_site default_args [] =
     \<lparr>exit_code = 0,
      final =
        \<lparr>queue = [],
         visited_pages = {|''https://agsafastpitch.com/'', ''https://agsafastpitch.com/teams''|},
         downloaded_by_url = [],
         files = [''manifest.json'', ''approved-manifest.json'', ''review.html''],
         requests =
           [''https://agsafastpitch.com/'', ''https://agsafastpitch.com/media/thumb.png'',
            ''https://agsafastpitch.com/teams'', ''https://agsafastpitch.com/media/thumb.png''],
         backoffs = [],
         fetched_pages = [''https://agsafastpitch.com/'', ''https://agsafastpitch.com/teams'']\<rparr>,
      manifest = []\<rparr>"
  by code_simp

text \<open>
  Claim C3 does not hold of the program. The dictionary \<^verbatim>\<open>downloaded_by_url\<close> records a
  URL only when its image is accepted, so an image that is downloaded and then rejected
  is downloaded again from every further page that shows it. On the site of two pages
  the small picture is requested twice, and nothing is accepted.
\<close>

theorem rejected_image_downloaded_twice:
  "requests (final (main thumb_site default_args [])) =
     [''https://agsafastpitch.com/'', ''https://agsafastpitch.com/media/thumb.png'',
      ''https://agsafastpitch.com/teams'', ''https://agsafastpitch.com/media/thumb.png'']
   \<and> downloaded_by_url (final (main thumb_site default_args [])) = []
   \<and> manifest (main thumb_site default_args []) = []"
  by (simp add: thumb_site_run)

lemma flaky_site_run:
  "main flaky_site default_args [] =
     \<lparr>exit_code = 0,
      final =
        \<lparr>queue = [], visited_pages = {|''https://agsafastpitch.com/''|},
         downloaded_by_url = [],
         files = [''manifest.json'', ''approved-manifest.json'', ''review.html''],
         requests = [''https://agsafastpitch.com/''], backoffs = [],
         fetched_pages = [''https://agsafastpitch.com/'']\<rparr>,
      manifest = []\<rparr>"
  by code_simp

lemma flaky_image_download:
  "download_image flaky_image_server ''https://agsafastpitch.com/media/team.jpg'' empty_state
     = (Some ''the bytes of a picture'',
        empty_state\<lparr>requests := [''https://agsafastpitch.com/media/team.jpg'',
                                  ''https://agsafastpitch.com/media/team.jpg''],
                    backoffs := [500]\<rparr>)"
  by code_simp

text \<open>
  Claim C6 does not hold of the program. The loop of \<^verbatim>\<open>main\<close> calls \<^verbatim>\<open>polite_get\<close> once
  for a page: when the home page is answered with status 503 it is marked visited after
  that single request, without a pause, although a second request would have been
  answered with the page. \<^verbatim>\<open>download_image\<close> does retry: an image answered with 503 is
  requested again after a pause of 500 milliseconds.
\<close>

theorem page_fetch_not_retried:
  "http_get flaky_site 0 ''https://agsafastpitch.com/'' = Some (error_response 503)
   \<and> http_get flaky_site 1 ''https://agsafastpitch.com/'' = Some (page_response ''home'')
   \<and> requests (final (main flaky_site default_args [])) = [''https://agsafastpitch.com/'']
   \<and> backoffs (final (main flaky_site default_args [])) = []
   \<and> visited_pages (final (main flaky_site default_args [])) = {|''https://agsafastpitch.com/''|}
   \<and> download_image flaky_image_server ''https://agsafastpitch.com/media/team.jpg'' empty_state
       = (Some ''the bytes of a picture'',
          empty_state\<lparr>requests := [''https://agsafastpitch.com/media/team.jpg'',
                                    ''https://agsafastpitch.com/media/team.jpg''],
                      backoffs := [500]\<rparr>)"
  by (simp add: flaky_site_run flaky_image_download) (simp add: flaky_site_def)

lemma script_site_run:
  "main script_site default_args [] =
     \<lparr>exit_code = 0,
      final =
        \<lparr>queue = [], visited_pages = {|''https://agsafastpitch.com/''|},
         downloaded_by_url = [],
         files = [''manifest.json'', ''approved-manifest.json'', ''review.html''],
         requests =
           [''https://agsafastpitch.com/'',
            ''https://agsafastpitch.com/gallery.php?file=team.jpg''],
         backoffs = [],
         fetched_pages = [''https://agsafastpitch.com/'']\<rparr>,
      manifest = []\<rparr>"
  by code_simp

lemma script_url_filter:
  "lower (path_suffix (path (urlparse ''https://agsafastpitch.com/gallery.php?file=team.jpg'')))
     = ''.php''"
  "''.php'' \<notin> set KNOWN_EXTS"
  "IMG_EXT_RE_search ''https://agsafastpitch.com/gallery.php?file=team.jpg''"
  "\<not> rejected_by_extension ''https://agsafastpitch.com/gallery.php?file=team.jpg''"
  by code_simp+

text \<open>
  Claim C7 does not hold of the program. The extension is read from the path of the URL,
  but \<^verbatim>\<open>IMG_EXT_RE\<close> is searched in the whole URL: the path of
  \<^verbatim>\<open>/gallery.php?file=team.jpg\<close> has the extension \<^verbatim>\<open>.php\<close>, which is no raster extension
  and not \<^verbatim>\<open>.svg\<close>, yet the expression matches the end of the query, the URL is not
  rejected, and it is downloaded.
\<close>

theorem script_url_downloaded:
  "lower (path_suffix (path (urlparse ''https://agsafastpitch.com/gallery.php?file=team.jpg'')))
     = ''.php''
   \<and> ''.php'' \<notin> set KNOWN_EXTS
   \<and> IMG_EXT_RE_search ''https://agsafastpitch.com/gallery.php?file=team.jpg''
   \<and> \<not> rejected_by_extension ''https://agsafastpitch.com/gallery.php?file=team.jpg''
   \<and> requests (final (main script_site default_args [])) =
       [''https://agsafastpitch.com/'', ''https://agsafastpitch.com/gallery.php?file=team.jpg'']"
  using script_url_filter by (simp add: script_site_run)

lemma bare_site_run:
  "main bare_site default_args [''0123456789abcdef.avif'', ''fedcba9876543210.jpg''] =
     \<lparr>exit_code = 0,
      final =
        \<lparr>queue = [], visited_pages = {|''https://agsafastpitch.com/''|},
         downloaded_by_url = [],
         files = [''0123456789abcdef.avif'', ''manifest.json'', ''approved-manifest.json'',
                  ''review.html''],
         requests = [''https://agsafastpitch.com/''], backoffs = [],
         fetched_pages = [''https://agsafastpitch.com/'']\<rparr>,
      manifest = []\<rparr>"
  by code_simp

lemma avif_is_stored:
  "\<not> rejected_by_extension ''https://agsafastpitch.com/photos/team.avif''"
  "guess_extension ''https://agsafastpitch.com/photos/team.avif'' example_image = ''.avif''"
  "''.avif'' \<notin> set PRUNED_EXTS"
  by code_simp+

text \<open>
  Claim C8 does not hold of the program. An accepted image whose URL ends in \<^verbatim>\<open>.avif\<close>
  is stored under a name that ends in \<^verbatim>\<open>.avif\<close>, but the pruning at the end of a run
  looks at seven extensions only, and \<^verbatim>\<open>.avif\<close> (like \<^verbatim>\<open>.tif\<close>) is not among them: of
  two stale files the one ending in \<^verbatim>\<open>.jpg\<close> is deleted and the one ending in \<^verbatim>\<open>.avif\<close>
  stays, although the manifest is empty.
\<close>

theorem stale_avif_survives:
  "\<not> rejected_by_extension ''https://agsafastpitch.com/photos/team.avif''
   \<and> guess_extension ''https://agsafastpitch.com/photos/team.avif'' example_image = ''.avif''
   \<and> ''.avif'' \<notin> set PRUNED_EXTS
   \<and> manifest (main bare_site default_args [''0123456789abcdef.avif'', ''fedcba9876543210.jpg'']) = []
   \<and> files (final (main bare_site default_args
                [''0123456789abcdef.avif'', ''fedcba9876543210.jpg'']))
       = [''0123456789abcdef.avif'', ''manifest.json'', ''approved-manifest.json'',
          ''review.html'']"
  using avif_is_stored by (simp add: bare_site_run)

subsection \<open>Further properties of the downloads\<close>

lemma download_attempts_requests:
  "\<exists>k. k \<le> length atts \<and> (atts \<noteq> [] \<longrightarrow> 1 \<le> k)
       \<and> requests (snd (download_attempts env url atts s)) = requests s @ replicate k url"
proof (induction atts arbitrary: s)
  case Nil
  show ?case by (intro exI [of _ 0]) simp
next
  case (Cons a atts)
  let ?s1 = "s\<lparr>requests := requests s @ [url]\<rparr>"
  have ih: "\<And>t. requests t = requests s @ [url] \<Longrightarrow>
      \<exists>k. k \<le> length (a # atts) \<and> 1 \<le> k
        \<and> requests (snd (download_attempts env url atts t)) = requests s @ replicate k url"
  proof -
    fix t :: CrawlState assume t: "requests t = requests s @ [url]"
    from Cons [of t] obtain k where k: "k \<le> length atts"
      "requests (snd (download_attempts env url atts t)) = requests t @ replicate k url"
      by blast
    have "requests t @ replicate k url = requests s @ replicate (Suc k) url"
      using t by (simp add: replicate_append_same)
    with k show "\<exists>k. k \<le> length (a # atts) \<and> 1 \<le> k
        \<and> requests (snd (download_attempts env url atts t)) = requests s @ replicate k url"
      by (intro exI [of _ "Suc k"]) simp
  qed
  have one: "\<exists>k. k \<le> length (a # atts) \<and> 1 \<le> k \<and> requests ?s1 = requests s @ replicate k url"
    by (intro exI [of _ 1]) simp
  show ?case
    using ih [of "?s1\<lparr>backoffs := backoffs ?s1 @ [350 * a]\<rparr>"]
      ih [of "?s1\<lparr>backoffs := backoffs ?s1 @ [500 * a]\<rparr>"] one
    by (simp add: polite_get_def split: option.split)
qed

text \<open>
  \<^verbatim>\<open>download_image\<close> sends at least one and at most \<^verbatim>\<open>MAX_RETRIES\<close> = 3 requests, all of
  them for the URL it was given.
\<close>

theorem download_image_bounded:
  "\<exists>k. 1 \<le> k \<and> k \<le> MAX_RETRIES
       \<and> requests (snd (download_image env url s)) = requests s @ replicate k url"
proof -
  let ?atts = "[1..<MAX_RETRIES + 1]"
  have len: "length ?atts = MAX_RETRIES" by simp
  have ne: "?atts \<noteq> []" by (simp add: MAX_RETRIES_def)
  from download_attempts_requests [of ?atts env url s]
  obtain k where k: "k \<le> length ?atts" "?atts \<noteq> [] \<longrightarrow> 1 \<le> k"
    "requests (snd (download_attempts env url ?atts s)) = requests s @ replicate k url"
    by blast
  from k(1) len have "k \<le> MAX_RETRIES" by (simp only:)
  moreover from k(2) ne have "1 \<le> k" by blast
  ultimately have "1 \<le> k \<and> k \<le> MAX_RETRIES
       \<and> requests (snd (download_image env url s)) = requests s @ replicate k url"
    using k(3) by (simp only: download_image_def)
  then show ?thesis by (rule exI)
qed

text \<open>
  An image URL that is a key of \<^verbatim>\<open>downloaded_by_url\<close>, that is, one whose image was
  accepted earlier in the run, is skipped: the state does not change, so no request is made.
\<close>

theorem accepted_url_not_fetched_again:
  "image_url \<in> set (map fst (downloaded_by_url s)) \<longrightarrow>
     process_image env allowed_domains page_url (image_url, a) s = s"
  by (simp add: process_image_def)

theorem accepted_url_not_fetched_again_witness:
  "''https://agsafastpitch.com/a.jpg''
     \<in> set (map fst (downloaded_by_url
          (empty_state\<lparr>downloaded_by_url := [(''https://agsafastpitch.com/a.jpg'', example_small)]\<rparr>)))
   \<and> process_image thumb_site [''agsafastpitch.com''] ''https://agsafastpitch.com/''
        (''https://agsafastpitch.com/a.jpg'', ''Team'')
        (empty_state\<lparr>downloaded_by_url := [(''https://agsafastpitch.com/a.jpg'', example_small)]\<rparr>)
     = empty_state\<lparr>downloaded_by_url := [(''https://agsafastpitch.com/a.jpg'', example_small)]\<rparr>"
proof -
  let ?s = "empty_state\<lparr>downloaded_by_url := [(''https://agsafastpitch.com/a.jpg'', example_small)]\<rparr>"
  have m: "''https://agsafastpitch.com/a.jpg'' \<in> set (map fst (downloaded_by_url ?s))"
    by simp
  from accepted_url_not_fetched_again [of "''https://agsafastpitch.com/a.jpg''" ?s thumb_site
      "[''agsafastpitch.com'']" "''https://agsafastpitch.com/''" "''Team''"] m
  show ?thesis by simp
qed

end
